theory Spec2Isabelle
  imports Main "HOL-Library.Char_ord" "HOL-Library.List_Lexorder" "HOL-Library.Product_Lexorder"
begin


section \<open>Python strings\<close>

text \<open>
  A Python \<open>str\<close> is a sequence of code points. It is modelled by \<^typ>\<open>string\<close>, whose
  characters are the code points U+0000 to U+00FF; the functions of this section do on
  those what Python's \<open>str\<close> methods do. The host is taken to be POSIX, so that
  \<open>os.path\<close> is \<open>posixpath\<close>.
\<close>

definition py_isspace :: "char \<Rightarrow> bool" where
  \<comment> \<open>\<open>str.isspace\<close> on one character; also the class \<open>\s\<close> of \<open>re\<close>.\<close>
  "py_isspace c = (c \<in> set [CHR 0x09, CHR 0x0A, CHR 0x0B, CHR 0x0C, CHR 0x0D,
     CHR 0x1C, CHR 0x1D, CHR 0x1E, CHR 0x1F, CHR 0x20, CHR 0x85, CHR 0xA0])"

definition lower_char :: "char \<Rightarrow> char" where
  "lower_char c =
     (let n = (of_char c :: nat)
      in if (65 \<le> n \<and> n \<le> 90) \<or> (192 \<le> n \<and> n \<le> 222 \<and> n \<noteq> 215)
         then char_of (n + 32) else c)"

definition lower :: "string \<Rightarrow> string" where
  \<comment> \<open>\<open>str.lower()\<close> on code points below U+0100, where it works character by
      character.\<close>
  "lower s = map lower_char s"

definition lstrip :: "string \<Rightarrow> string" where
  \<comment> \<open>\<open>str.lstrip()\<close>\<close>
  "lstrip s = dropWhile py_isspace s"

definition rstrip :: "string \<Rightarrow> string" where
  \<comment> \<open>\<open>str.rstrip()\<close>\<close>
  "rstrip s = rev (dropWhile py_isspace (rev s))"

definition strip :: "string \<Rightarrow> string" where
  \<comment> \<open>\<open>str.strip()\<close>\<close>
  "strip s = rstrip (lstrip s)"

definition lstrip_chars :: "string \<Rightarrow> string \<Rightarrow> string" where
  \<comment> \<open>\<open>s.lstrip(chars)\<close>: drops leading characters that occur in \<open>chars\<close>.\<close>
  "lstrip_chars chars s = dropWhile (\<lambda>c. c \<in> set chars) s"

definition rstrip_chars :: "string \<Rightarrow> string \<Rightarrow> string" where
  \<comment> \<open>\<open>s.rstrip(chars)\<close>\<close>
  "rstrip_chars chars s = rev (dropWhile (\<lambda>c. c \<in> set chars) (rev s))"

definition startswith :: "string \<Rightarrow> string \<Rightarrow> bool" where
  \<comment> \<open>\<open>s.startswith(p)\<close>\<close>
  "startswith s p = (take (length p) s = p)"

definition endswith :: "string \<Rightarrow> string \<Rightarrow> bool" where
  \<comment> \<open>\<open>s.endswith(p)\<close>\<close>
  "endswith s p = (length p \<le> length s \<and> drop (length s - length p) s = p)"

fun contains :: "string \<Rightarrow> string \<Rightarrow> bool" where
  \<comment> \<open>\<open>p in s\<close>\<close>
  "contains [] p = (p = [])"
| "contains (c # s) p = (startswith (c # s) p \<or> contains s p)"

fun before_first :: "string \<Rightarrow> string \<Rightarrow> string" where
  \<comment> \<open>\<open>s.split(sep, 1)[0]\<close> for a non-empty \<open>sep\<close>: the text before the first occurrence
      of \<open>sep\<close>, the whole of \<open>s\<close> when there is none.\<close>
  "before_first [] sep = []"
| "before_first (c # s) sep = (if startswith (c # s) sep then [] else c # before_first s sep)"

fun split_char :: "char \<Rightarrow> string \<Rightarrow> string list" where
  \<comment> \<open>\<open>s.split(sep)\<close> for a separator of one character.\<close>
  "split_char sep [] = [[]]"
| "split_char sep (c # s) =
     (if c = sep then [] # split_char sep s
      else (case split_char sep s of [] \<Rightarrow> [[c]] | w # ws \<Rightarrow> (c # w) # ws))"

definition replace_char :: "char \<Rightarrow> char \<Rightarrow> string \<Rightarrow> string" where
  \<comment> \<open>\<open>s.replace(a, b)\<close> for one-character \<open>a\<close> and \<open>b\<close>.\<close>
  "replace_char a b s = map (\<lambda>c. if c = a then b else c) s"

fun join :: "string \<Rightarrow> string list \<Rightarrow> string" where
  \<comment> \<open>\<open>sep.join(parts)\<close>\<close>
  "join sep [] = []"
| "join sep [p] = p"
| "join sep (p # q # ps) = p @ sep @ join sep (q # ps)"

section \<open>posixpath\<close>

fun normpath_comps :: "bool \<Rightarrow> string list \<Rightarrow> string list \<Rightarrow> string list" where
  \<comment> \<open>The loop of \<open>posixpath.normpath\<close> over the components; \<open>new_comps\<close> is kept
      reversed, its last element first.\<close>
  "normpath_comps initial_slashes new_comps [] = rev new_comps"
| "normpath_comps initial_slashes new_comps (comp' # comps) =
     (if comp' = [] \<or> comp' = ''.'' then normpath_comps initial_slashes new_comps comps
      else if comp' \<noteq> ''..'' \<or> (\<not> initial_slashes \<and> new_comps = [])
                \<or> (new_comps \<noteq> [] \<and> hd new_comps = ''..'')
           then normpath_comps initial_slashes (comp' # new_comps) comps
      else if new_comps \<noteq> [] then normpath_comps initial_slashes (tl new_comps) comps
      else normpath_comps initial_slashes new_comps comps)"

definition normpath :: "string \<Rightarrow> string" where
  \<comment> \<open>\<open>posixpath.normpath\<close>\<close>
  "normpath path =
     (if path = [] then ''.''
      else
        let initial_slashes =
              (if startswith path ''/''
               then (if startswith path ''//'' \<and> \<not> startswith path ''///'' then 2 else 1)
               else (0::nat));
            comps = normpath_comps (initial_slashes \<noteq> 0) [] (split_char CHR ''/'' path);
            joined = replicate initial_slashes CHR ''/'' @ join ''/'' comps
        in if joined = [] then ''.'' else joined)"

definition dirname :: "string \<Rightarrow> string" where
  \<comment> \<open>\<open>posixpath.dirname\<close>: the text up to the last slash, without trailing slashes
      unless it is slashes only.\<close>
  "dirname p =
     (let head = rev (dropWhile (\<lambda>c. c \<noteq> CHR ''/'') (rev p))
      in if head \<noteq> [] \<and> head \<noteq> replicate (length head) CHR ''/''
         then rstrip_chars ''/'' head else head)"

definition path_join :: "string \<Rightarrow> string \<Rightarrow> string" where
  \<comment> \<open>\<open>posixpath.join(a, b)\<close>\<close>
  "path_join a b =
     (if startswith b ''/'' then b
      else if a = [] \<or> endswith a ''/'' then a @ b
      else a @ ''/'' @ b)"

section \<open>Link resolution\<close>

definition normalize_relative_path :: "string \<Rightarrow> string" where
  "normalize_relative_path path_value =
     (let normalized = normpath (replace_char CHR 0x5C CHR ''/'' path_value)
      in if normalized = ''.'' then [] else lstrip_chars ''./'' normalized)"

definition resolve_link_target ::
  "string \<Rightarrow> string \<Rightarrow> string set \<Rightarrow> (string \<rightharpoonup> string) \<Rightarrow> string option" where
  "resolve_link_target source_relative_path raw_target known_paths id_to_path =
     (let target = strip raw_target in
      if target = [] then None
      else
        let target = (if contains target ''::'' then before_first target ''::'' else target);
            target = (if contains target ''#'' then before_first target ''#'' else target)
        in
        if startswith (lower target) ''id:'' then id_to_path (lower (strip (drop 3 target)))
        else
          case (if startswith target ''file:'' then Some (drop 5 target)
                else if contains target ''://'' then None
                else if contains target '':'' \<and> \<not> endswith target ''.org'' then None
                else Some target) of
            None \<Rightarrow> None
          | Some target \<Rightarrow>
              let source_dir = dirname source_relative_path;
                  candidate =
                    (if startswith target ''/''
                     then normalize_relative_path (lstrip_chars ''/'' target)
                     else normalize_relative_path (path_join source_dir target))
              in
              if candidate = [] then None
              else if candidate \<in> known_paths then Some candidate
              else if \<not> endswith candidate ''.org''
              then (let with_suffix = candidate @ ''.org''
                    in if with_suffix \<in> known_paths then Some with_suffix else None)
              else None)"

section \<open>Regular-expression scans\<close>

text \<open>
  A pattern is modelled by its matcher at the start of a text: the groups of the match
  and its length, or \<open>None\<close>. \<open>finditer\<close> is \<open>re.finditer\<close> for a pattern that never
  matches the empty string: it tries each position from the left and resumes at the end
  of a match. It returns, for each match, the text between the end of the match before
  (the start of the text for the first) and its start, the matched text (\<open>group(0)\<close>)
  and the groups, and last the text after the final match.
\<close>

fun finditer ::
  "(string \<Rightarrow> ('g \<times> nat) option) \<Rightarrow> string \<Rightarrow> (string \<times> string \<times> 'g) list \<times> string" where
  "finditer pat [] = ([], [])"
| "finditer pat (c # s) =
     (case pat (c # s) of
        Some (g, len) \<Rightarrow>
          (case finditer pat (drop (len - 1) s) of
             (ms, rest) \<Rightarrow> (([], take len (c # s), g) # ms, rest))
      | None \<Rightarrow>
          (case finditer pat s of
             ([], rest) \<Rightarrow> ([], c # rest)
           | ((pre, m) # ms, rest) \<Rightarrow> ((c # pre, m) # ms, rest)))"

definition ORG_LINK_RE :: "string \<Rightarrow> ((string \<times> string option) \<times> nat) option" where
  \<comment> \<open>\<open>\[\[([^\]]+)\](?:\[([^\]]*)\])?\]\<close>: groups 1 and 2 (group 2 is \<open>None\<close> when the
      label part is absent) and the length of the match.\<close>
  "ORG_LINK_RE s =
     (if \<not> startswith s ''[['' then None
      else
        let target = takeWhile (\<lambda>c. c \<noteq> CHR '']'') (drop 2 s);
            r = dropWhile (\<lambda>c. c \<noteq> CHR '']'') (drop 2 s)
        in
        if target = [] \<or> r = [] then None
        else
          let label = takeWhile (\<lambda>c. c \<noteq> CHR '']'') (drop 2 r);
              r2 = dropWhile (\<lambda>c. c \<noteq> CHR '']'') (drop 2 r)
          in
          if startswith (tl r) ''['' \<and> startswith r2 '']]''
          then Some ((target, Some label), 2 + length target + 2 + length label + 2)
          else if startswith (tl r) '']'' then Some ((target, None), 2 + length target + 2)
          else None)"

definition extract_org_link_targets :: "string \<Rightarrow> string list" where
  "extract_org_link_targets content =
     map (\<lambda>(pre, whole, g). strip (fst g)) (fst (finditer ORG_LINK_RE content))"

section \<open>Notes and backlinks\<close>

record OrgFile =
  path :: string
  relative_path :: string
  title :: string
  file_id :: "string option"
  content :: string

definition known_paths_of :: "OrgFile list \<Rightarrow> string set" where
  \<comment> \<open>\<open>{f.relative_path for f in files}\<close>\<close>
  "known_paths_of files = set (map relative_path files)"

definition id_to_path_of :: "OrgFile list \<Rightarrow> (string \<rightharpoonup> string)" where
  \<comment> \<open>\<open>{f.file_id.lower(): f.relative_path for f in files if f.file_id}\<close>: a later note
      overwrites an earlier one with the same key; \<open>None\<close> and the empty string are
      both false.\<close>
  "id_to_path_of files =
     foldl (\<lambda>m f. case file_id f of
                     None \<Rightarrow> m
                   | Some i \<Rightarrow> if i = [] then m else m(lower i \<mapsto> relative_path f))
       Map.empty files"

definition find_backlinks_step ::
  "string \<Rightarrow> string set \<Rightarrow> (string \<rightharpoonup> string) \<Rightarrow> OrgFile list \<times> string set \<Rightarrow> OrgFile
     \<Rightarrow> OrgFile list \<times> string set" where
  \<comment> \<open>One round of the loop over \<open>files\<close>; the state is \<open>(backlinks, seen_sources)\<close>.
      The inner loop stops at the first target that passes its test.\<close>
  "find_backlinks_step selected_path known_paths id_to_path st source =
     (case st of (backlinks, seen_sources) \<Rightarrow>
        if relative_path source = selected_path then (backlinks, seen_sources)
        else if list_ex
            (\<lambda>raw_target.
               resolve_link_target (relative_path source) raw_target known_paths id_to_path
                 = Some selected_path
               \<and> relative_path source \<notin> seen_sources)
            (extract_org_link_targets (content source))
        then (backlinks @ [source], insert (relative_path source) seen_sources)
        else (backlinks, seen_sources))"

definition backlink_key :: "OrgFile \<Rightarrow> string \<times> string" where
  \<comment> \<open>\<open>lambda f: (f.title.lower(), f.relative_path.lower())\<close>\<close>
  "backlink_key f = (lower (title f), lower (relative_path f))"

definition find_backlinks :: "OrgFile list \<Rightarrow> string \<Rightarrow> OrgFile list" where
  \<comment> \<open>\<open>list.sort\<close> is stable, as \<open>sort_key\<close> is; strings compare by code point and
      tuples lexicographically.\<close>
  "find_backlinks files selected_path =
     (let known_paths = known_paths_of files;
          id_to_path = id_to_path_of files;
          backlinks =
            fst (foldl (find_backlinks_step selected_path known_paths id_to_path) ([], {}) files)
      in sort_key backlink_key backlinks)"

definition count_target ::
  "OrgFile \<Rightarrow> string set \<Rightarrow> (string \<rightharpoonup> string) \<Rightarrow> (string \<rightharpoonup> int) \<times> string set \<Rightarrow> string
     \<Rightarrow> (string \<rightharpoonup> int) \<times> string set" where
  \<comment> \<open>One round of the inner loop of \<open>build_backlink_counts\<close>; the state is
      \<open>(counts, seen_targets)\<close>. \<open>not resolved\<close> holds of \<open>None\<close> and of the empty string.\<close>
  "count_target source known_paths id_to_path st raw_target =
     (case st of (counts, seen_targets) \<Rightarrow>
        (case resolve_link_target (relative_path source) raw_target known_paths id_to_path of
           None \<Rightarrow> (counts, seen_targets)
         | Some resolved \<Rightarrow>
             if resolved = [] \<or> resolved = relative_path source \<or> resolved \<in> seen_targets
             then (counts, seen_targets)
             else (case counts resolved of
                     Some n \<Rightarrow> (counts(resolved \<mapsto> n + 1), insert resolved seen_targets)
                   | None \<Rightarrow> (counts, seen_targets))))"

definition count_source ::
  "string set \<Rightarrow> (string \<rightharpoonup> string) \<Rightarrow> (string \<rightharpoonup> int) \<Rightarrow> OrgFile \<Rightarrow> (string \<rightharpoonup> int)" where
  \<comment> \<open>One round of the outer loop: \<open>seen_targets\<close> starts empty for every source.\<close>
  "count_source known_paths id_to_path counts source =
     fst (foldl (count_target source known_paths id_to_path) (counts, {})
            (extract_org_link_targets (content source)))"

definition build_backlink_counts :: "OrgFile list \<Rightarrow> (string \<rightharpoonup> int)" where
  "build_backlink_counts files =
     (let known_paths = known_paths_of files;
          id_to_path = id_to_path_of files;
          counts = foldl (\<lambda>m f. m(relative_path f \<mapsto> 0)) Map.empty files
      in foldl (count_source known_paths id_to_path) counts files)"

section \<open>Lines and directives\<close>

definition is_linebreak :: "char \<Rightarrow> bool" where
  \<comment> \<open>The line boundaries of \<open>str.splitlines\<close> below U+0100.\<close>
  "is_linebreak c = (c \<in> set [CHR 0x0A, CHR 0x0B, CHR 0x0C, CHR 0x0D,
     CHR 0x1C, CHR 0x1D, CHR 0x1E, CHR 0x85])"

fun splitlines_from :: "string \<Rightarrow> bool \<Rightarrow> string \<Rightarrow> string list" where
  \<comment> \<open>\<open>cur\<close> is the line read so far; \<open>after_cr\<close> says that the character before was a
      carriage return, so that a line feed now belongs to the same boundary.\<close>
  "splitlines_from cur after_cr [] = (if cur = [] then [] else [cur])"
| "splitlines_from cur after_cr (c # s) =
     (if after_cr \<and> c = CHR 0x0A then splitlines_from cur False s
      else if is_linebreak c then cur # splitlines_from [] (c = CHR 0x0D) s
      else splitlines_from (cur @ [c]) False s)"

definition splitlines :: "string \<Rightarrow> string list" where
  \<comment> \<open>\<open>str.splitlines()\<close>\<close>
  "splitlines s = splitlines_from [] False s"

definition lazy_value :: "string \<Rightarrow> string option" where
  \<comment> \<open>Group 1 of \<open>\s*(.+?)\s*$\<close> on a text without a line feed: the text stripped; when
      the text is white space only, \<open>\s*\<close> gives its last character back to the group.\<close>
  "lazy_value s =
     (if s = [] then None
      else if strip s = [] then Some [last s]
      else Some (strip s))"

definition TITLE_RE :: "string \<Rightarrow> string option" where
  \<comment> \<open>\<open>^\s*#\+TITLE:\s*(.+?)\s*$\<close>, ignoring case, matched at the start of a line:
      group 1.\<close>
  "TITLE_RE line =
     (let r = lstrip line
      in if startswith (lower r) ''#+title:'' then lazy_value (drop 8 r) else None)"

definition ID_RE :: "string \<Rightarrow> string option" where
  \<comment> \<open>\<open>^\s*:ID:\s*(\S+)\s*$\<close>, ignoring case: group 1.\<close>
  "ID_RE line =
     (let r = lstrip line;
          v = lstrip (drop 4 r);
          tok = takeWhile (\<lambda>c. \<not> py_isspace c) v;
          rest = dropWhile (\<lambda>c. \<not> py_isspace c) v
      in if startswith (lower r) '':id:'' \<and> tok \<noteq> [] \<and> list_all py_isspace rest
         then Some tok else None)"

definition CREATED_LINE_RE :: "string \<Rightarrow> string option" where
  \<comment> \<open>\<open>^\s*(?:#\+)?CREATED:\s*(.+?)\s*$\<close>, ignoring case: group 1.\<close>
  "CREATED_LINE_RE line =
     (let r = lstrip line;
          r = (if startswith r ''#+'' then drop 2 r else r)
      in if startswith (lower r) ''created:'' then lazy_value (drop 8 r) else None)"

fun first_match :: "(string \<Rightarrow> 'a option) \<Rightarrow> string list \<Rightarrow> 'a option" where
  \<comment> \<open>\<open>for line in lines: m = f(line); if m: return m\<close>\<close>
  "first_match f [] = None"
| "first_match f (line # lines) =
     (case f line of Some m \<Rightarrow> Some m | None \<Rightarrow> first_match f lines)"

definition extract_org_title :: "string \<Rightarrow> string \<Rightarrow> string" where
  "extract_org_title content' fallback =
     (case first_match TITLE_RE (splitlines content') of
        Some g \<Rightarrow> strip g
      | None \<Rightarrow> fallback)"

definition extract_org_id :: "string \<Rightarrow> string option" where
  "extract_org_id content' =
     (case first_match ID_RE (splitlines content') of
        Some g \<Rightarrow> Some (strip g)
      | None \<Rightarrow> None)"

section \<open>Creation time stamps\<close>

definition is_digit :: "char \<Rightarrow> bool" where
  \<comment> \<open>The class \<open>\d\<close> below U+0100.\<close>
  "is_digit c = (48 \<le> (of_char c :: nat) \<and> (of_char c :: nat) \<le> 57)"

definition is_word :: "char \<Rightarrow> bool" where
  \<comment> \<open>The class \<open>\w\<close> below U+0100: letters, digits and other numeric characters,
      and the underscore.\<close>
  "is_word c =
     (let n = (of_char c :: nat)
      in (48 \<le> n \<and> n \<le> 57) \<or> (65 \<le> n \<and> n \<le> 90) \<or> n = 95 \<or> (97 \<le> n \<and> n \<le> 122)
         \<or> n \<in> set [170, 178, 179, 181, 185, 186, 188, 189, 190]
         \<or> (192 \<le> n \<and> n \<le> 214) \<or> (216 \<le> n \<and> n \<le> 246) \<or> (248 \<le> n \<and> n \<le> 255))"

definition digits :: "nat \<Rightarrow> string \<Rightarrow> (string \<times> string) option" where
  \<comment> \<open>\<open>(\d{n})\<close>: the group and the text after it.\<close>
  "digits n s =
     (if n \<le> length s \<and> list_all is_digit (take n s) then Some (take n s, drop n s) else None)"

definition ts_dayname :: "string \<Rightarrow> string option" where
  \<comment> \<open>\<open>\s+\w{3}\<close>: the text after it. No word character is white space, so only the
      longest run of white space can be followed by a word.\<close>
  "ts_dayname s =
     (let r = dropWhile py_isspace s
      in if takeWhile py_isspace s \<noteq> [] \<and> 3 \<le> length r \<and> list_all is_word (take 3 r)
         then Some (drop 3 r) else None)"

definition ts_time :: "string \<Rightarrow> ((string \<times> string) \<times> string) option" where
  \<comment> \<open>\<open>\s+(\d{2}):(\d{2})\<close>: the two groups and the text after them.\<close>
  "ts_time s =
     (if takeWhile py_isspace s = [] then None
      else case digits 2 (dropWhile py_isspace s) of
             None \<Rightarrow> None
           | Some (h, r) \<Rightarrow>
               if \<not> startswith r '':'' then None
               else (case digits 2 (tl r) of
                       None \<Rightarrow> None
                     | Some (mi, r') \<Rightarrow> Some ((h, mi), r')))"

definition ts_close :: "string \<Rightarrow> bool" where
  \<comment> \<open>\<open>[\]>]\<close>\<close>
  "ts_close s = (startswith s '']'' \<or> startswith s ''>'')"

definition ts_tail :: "string \<Rightarrow> (string \<times> string) option option" where
  \<comment> \<open>\<open>(?:\s+(\d{2}):(\d{2}))?[\]>]\<close>: the optional part is tried first, then left
      out. The result is groups 4 and 5, \<open>None\<close> when the time is absent.\<close>
  "ts_tail s =
     (case (case ts_time s of
              Some (hm, r) \<Rightarrow> if ts_close r then Some (Some hm) else None
            | None \<Rightarrow> None) of
        Some g \<Rightarrow> Some g
      | None \<Rightarrow> if ts_close s then Some None else None)"

definition ORG_TIMESTAMP_RE ::
  "string \<Rightarrow> (string \<times> string \<times> string \<times> (string \<times> string) option) option" where
  \<comment> \<open>\<open>[\[<](\d{4})-(\d{2})-(\d{2})(?:\s+\w{3})?(?:\s+(\d{2}):(\d{2}))?[\]>]\<close> matched at
      the start of the text: groups 1 to 3, and groups 4 and 5 when they took part.\<close>
  "ORG_TIMESTAMP_RE s =
     (if \<not> (startswith s ''['' \<or> startswith s ''<'') then None
      else case digits 4 (tl s) of
        None \<Rightarrow> None
      | Some (y, r) \<Rightarrow>
          if \<not> startswith r ''-'' then None
          else case digits 2 (tl r) of
            None \<Rightarrow> None
          | Some (m, r) \<Rightarrow>
              if \<not> startswith r ''-'' then None
              else case digits 2 (tl r) of
                None \<Rightarrow> None
              | Some (d, r) \<Rightarrow>
                  (case (case ts_dayname r of Some r' \<Rightarrow> ts_tail r' | None \<Rightarrow> None) of
                     Some hm \<Rightarrow> Some (y, m, d, hm)
                   | None \<Rightarrow>
                       (case ts_tail r of
                          Some hm \<Rightarrow> Some (y, m, d, hm)
                        | None \<Rightarrow> None)))"

fun re_search :: "(string \<Rightarrow> 'g option) \<Rightarrow> string \<Rightarrow> 'g option" where
  \<comment> \<open>\<open>pattern.search(text)\<close>: the match at the leftmost position that has one.\<close>
  "re_search pat [] = pat []"
| "re_search pat (c # s) = (case pat (c # s) of Some g \<Rightarrow> Some g | None \<Rightarrow> re_search pat s)"

definition py_int :: "string \<Rightarrow> int option" where
  \<comment> \<open>\<open>int(s)\<close> on a text of decimal digits; \<open>None\<close> is \<open>ValueError\<close>. The groups of the
      pattern are such texts; signs, underscores and white space, which \<open>int\<close> would
      also read, are left out.\<close>
  "py_int s =
     (if s \<noteq> [] \<and> list_all is_digit s
      then Some (foldl (\<lambda>a c. 10 * a + (int (of_char c) - 48)) 0 s)
      else None)"

definition timestamp_match_to_sort_key ::
  "string \<times> string \<times> string \<times> (string \<times> string) option \<Rightarrow> int option" where
  \<comment> \<open>\<open>_timestamp_match_to_sort_key\<close>; \<open>match.group(4) or "0"\<close> is \<open>"0"\<close> for an absent
      group. A \<open>ValueError\<close> of any conversion gives \<open>None\<close>.\<close>
  "timestamp_match_to_sort_key m =
     (case m of (y, mo, d, hm) \<Rightarrow>
        (case (py_int y, py_int mo, py_int d,
               py_int (case hm of Some (h, mi) \<Rightarrow> h | None \<Rightarrow> ''0''),
               py_int (case hm of Some (h, mi) \<Rightarrow> mi | None \<Rightarrow> ''0'')) of
           (Some year, Some month, Some day, Some hour, Some minute) \<Rightarrow>
             Some (year * 100000000 + month * 1000000 + day * 10000 + hour * 100 + minute)
         | _ \<Rightarrow> None))"

fun created_scan :: "string list \<Rightarrow> int option" where
  \<comment> \<open>The loop of \<open>extract_created_sort_key\<close> over the lines: it returns at the first
      \<open>CREATED\<close> line whose value holds a time stamp with a key, and goes on otherwise.\<close>
  "created_scan [] = None"
| "created_scan (line # lines) =
     (case CREATED_LINE_RE line of
        None \<Rightarrow> created_scan lines
      | Some v \<Rightarrow>
          (case re_search ORG_TIMESTAMP_RE v of
             None \<Rightarrow> created_scan lines
           | Some ts_match \<Rightarrow>
               (case timestamp_match_to_sort_key ts_match of
                  Some key \<Rightarrow> Some key
                | None \<Rightarrow> created_scan lines)))"

definition extract_created_sort_key :: "string \<Rightarrow> int option" where
  "extract_created_sort_key content' =
     (case created_scan (splitlines content') of
        Some key \<Rightarrow> Some key
      | None \<Rightarrow>
          (case re_search ORG_TIMESTAMP_RE content' of
             Some first_ts \<Rightarrow> timestamp_match_to_sort_key first_ts
           | None \<Rightarrow> None))"

section \<open>Rendering\<close>

definition escape_char :: "char \<Rightarrow> string" where
  "escape_char c =
     (if c = CHR ''&'' then ''&amp;''
      else if c = CHR ''<'' then ''&lt;''
      else if c = CHR ''>'' then ''&gt;''
      else if c = CHR 0x22 then ''&quot;''
      else if c = CHR 0x27 then ''&#x27;''
      else [c])"

definition html_escape :: "string \<Rightarrow> string" where
  \<comment> \<open>\<open>html.escape(s)\<close> with \<open>quote=True\<close>, its default: five replacements in a row,
      none of which produces a character that a later one replaces.\<close>
  "html_escape s = concat (map escape_char s)"

definition hex_digit :: "nat \<Rightarrow> char" where
  "hex_digit n = (if n < 10 then char_of (48 + n) else char_of (55 + n))"

definition percent_byte :: "nat \<Rightarrow> string" where
  \<comment> \<open>\<open>'%{:02X}'.format(b)\<close>\<close>
  "percent_byte b = [CHR ''%'', hex_digit (b div 16), hex_digit (b mod 16)]"

definition quote_plus_char :: "char \<Rightarrow> string" where
  \<comment> \<open>\<open>urllib.parse.quote_plus\<close> on one character: unreserved characters stay, a space
      is a plus sign, every other character is the percent-escape of its UTF-8 bytes.\<close>
  "quote_plus_char c =
     (let n = (of_char c :: nat)
      in if (48 \<le> n \<and> n \<le> 57) \<or> (65 \<le> n \<and> n \<le> 90) \<or> (97 \<le> n \<and> n \<le> 122)
            \<or> c \<in> set ''_.-~''
         then [c]
         else if c = CHR '' '' then ''+''
         else if n < 128 then percent_byte n
         else percent_byte (192 + n div 64) @ percent_byte (128 + n mod 64))"

definition note_href :: "string \<Rightarrow> bool \<Rightarrow> string" where
  \<comment> \<open>\<open>"/?" + urlencode(params)\<close>\<close>
  "note_href relative_path' edit_mode =
     ''/?file='' @ concat (map quote_plus_char relative_path')
       @ (if edit_mode then ''&edit=1'' else [])"

definition is_url_char :: "char \<Rightarrow> bool" where
  \<comment> \<open>\<open>[^\s<>'\"()\[\]]\<close>\<close>
  "is_url_char c = (\<not> py_isspace c \<and> c \<notin> set [CHR ''<'', CHR ''>'', CHR 0x27, CHR 0x22,
     CHR ''('', CHR '')'', CHR ''['', CHR '']''])"

definition URL_RE :: "string \<Rightarrow> (unit \<times> nat) option" where
  \<comment> \<open>\<open>https?://[^\s<>'\"()\[\]]+\<close>: the length of the match.\<close>
  "URL_RE s =
     (let n = (if startswith s ''https://'' then 8 else if startswith s ''http://'' then 7 else 0);
          body = takeWhile is_url_char (drop n s)
      in if n = 0 \<or> body = [] then None else Some ((), n + length body))"

definition render_plain_text_with_links :: "string \<Rightarrow> string" where
  "render_plain_text_with_links text' =
     (case finditer URL_RE text' of
        (ms, rest) \<Rightarrow>
          concat (map (\<lambda>(pre, url, g).
              (if pre \<noteq> [] then html_escape pre else [])
              @ ''<a class='' @ [CHR 0x27] @ ''org-link'' @ [CHR 0x27] @ '' href='' @ [CHR 0x27]
              @ html_escape url @ [CHR 0x27] @ '' target='' @ [CHR 0x27] @ ''_blank'' @ [CHR 0x27]
              @ '' rel='' @ [CHR 0x27] @ ''noopener noreferrer'' @ [CHR 0x27] @ ''>''
              @ html_escape url @ ''</a>'') ms)
          @ (if rest \<noteq> [] then html_escape rest else []))"

definition render_org_link ::
  "string \<Rightarrow> string set \<Rightarrow> (string \<rightharpoonup> string) \<Rightarrow> string \<times> string \<times> string \<times> string option
     \<Rightarrow> string" where
  \<comment> \<open>One round of the loop of \<open>render_line_with_links\<close>, for one match with the text
      before it. \<open>if resolved\<close> fails on \<open>None\<close> and on the empty string.\<close>
  "render_org_link source_relative_path known_paths id_to_path m =
     (case m of (pre, whole, g1, g2) \<Rightarrow>
        (if pre \<noteq> [] then render_plain_text_with_links pre else [])
        @ (let raw_target = strip g1;
               label = strip (case g2 of Some l \<Rightarrow> l | None \<Rightarrow> []);
               resolved = resolve_link_target source_relative_path raw_target known_paths id_to_path
           in case resolved of
                None \<Rightarrow> render_plain_text_with_links whole
              | Some r \<Rightarrow>
                  if r = [] then render_plain_text_with_links whole
                  else
                    ''<a class='' @ [CHR 0x27] @ ''org-link'' @ [CHR 0x27] @ '' href='' @ [CHR 0x27]
                    @ html_escape (note_href r False) @ [CHR 0x27] @ ''>''
                    @ html_escape (if label \<noteq> [] then label else raw_target) @ ''</a>''))"

definition render_line_with_links ::
  "string \<Rightarrow> string \<Rightarrow> string set \<Rightarrow> (string \<rightharpoonup> string) \<Rightarrow> string" where
  "render_line_with_links line source_relative_path known_paths id_to_path =
     (case finditer ORG_LINK_RE line of
        (ms, rest) \<Rightarrow>
          concat (map (render_org_link source_relative_path known_paths id_to_path) ms)
          @ (if rest \<noteq> [] then render_plain_text_with_links rest else []))"

function str_nat :: "nat \<Rightarrow> string" where
  \<comment> \<open>\<open>str(n)\<close> for a natural number\<close>
  "str_nat n = (if n < 10 then [char_of (48 + n)] else str_nat (n div 10) @ [char_of (48 + n mod 10)])"
  by pat_completeness auto
termination
  by (relation "measure id") auto

definition render_org_line ::
  "string \<Rightarrow> string \<Rightarrow> string set \<Rightarrow> (string \<rightharpoonup> string) \<Rightarrow> string" where
  \<comment> \<open>The body of the loop of \<open>render_org_to_html\<close>: what one line appends to
      \<open>html_lines\<close>. \<open>stripped[stars]\<close> is read only when \<open>len(stripped) > stars\<close>.\<close>
  "render_org_line raw_line source_relative_path known_paths id_to_path =
     (let line = rstrip_chars [CHR 0x0A] raw_line;
          stripped = lstrip line;
          stars = length stripped - length (lstrip_chars ''*'' stripped)
      in if startswith stripped ''*'' \<and> stars > 0 \<and> length stripped > stars
            \<and> stripped ! stars = CHR '' ''
         then (let level = min (stars + 1) 6;
                   title' = html_escape (drop (stars + 1) stripped)
               in ''<h'' @ str_nat level @ ''>'' @ title' @ ''</h'' @ str_nat level @ ''>'')
         else if stripped = [] then ''<div class='' @ [CHR 0x27] @ ''spacer'' @ [CHR 0x27] @ ''></div>''
         else ''<p>'' @ render_line_with_links line source_relative_path known_paths id_to_path
              @ ''</p>'')"

definition render_org_to_html ::
  "string \<Rightarrow> string \<Rightarrow> string set \<Rightarrow> (string \<rightharpoonup> string) \<Rightarrow> string" where
  "render_org_to_html content' source_relative_path known_paths id_to_path =
     join [CHR 0x0A]
       (map (\<lambda>raw_line. render_org_line raw_line source_relative_path known_paths id_to_path)
          (splitlines content'))"

section \<open>Scanning a directory\<close>

text \<open>
  The directory tree that \<open>os.walk\<close> reads: a file with its name and its decoded text, a
  directory with its name and its entries, in the order in which the system lists them.
\<close>

datatype fs_entry = File string string | Dir string "fs_entry list"

definition stem :: "string \<Rightarrow> string" where
  \<comment> \<open>\<open>Path.stem\<close>: the name without its last suffix; a dot that starts or ends the name
      does not start a suffix.\<close>
  "stem name =
     (let i = length (rev (dropWhile (\<lambda>c. c \<noteq> CHR ''.'') (rev name)))
      in if 1 < i \<and> i < length name then take (i - 1) name else name)"

definition org_file_of :: "string \<Rightarrow> string list \<Rightarrow> string \<Rightarrow> string \<Rightarrow> OrgFile" where
  \<comment> \<open>The \<open>OrgFile\<close> built for the file \<open>name\<close> in the directory \<open>root\<close>, given by its
      components below \<open>base_dir\<close>; \<open>str(file_path.relative_to(base_dir))\<close> joins the
      components with slashes.\<close>
  "org_file_of base_dir root name text' =
     \<lparr> path = join ''/'' (base_dir # root @ [name]),
       relative_path = normalize_relative_path (join ''/'' (root @ [name])),
       title = extract_org_title text' (stem name),
       file_id = extract_org_id text',
       content = text' \<rparr>"

fun org_files_in :: "string \<Rightarrow> string list \<Rightarrow> fs_entry list \<Rightarrow> OrgFile list" where
  \<comment> \<open>The loop over \<open>files\<close> for one directory of the walk.\<close>
  "org_files_in base_dir root [] = []"
| "org_files_in base_dir root (File name text' # es) =
     (if endswith (lower name) ''.org''
      then org_file_of base_dir root name text' # org_files_in base_dir root es
      else org_files_in base_dir root es)"
| "org_files_in base_dir root (Dir name sub # es) = org_files_in base_dir root es"

fun walk_dirs :: "string \<Rightarrow> string list \<Rightarrow> fs_entry list \<Rightarrow> OrgFile list" where
  \<comment> \<open>The walk below one directory, top down: every sub-directory that is not pruned
      gives its own files first and then its sub-directories.\<close>
  "walk_dirs base_dir root [] = []"
| "walk_dirs base_dir root (File name text' # es) = walk_dirs base_dir root es"
| "walk_dirs base_dir root (Dir name sub # es) =
     (if name \<in> set [''.git'', ''.venv'', ''venv'', ''__pycache__''] then []
      else org_files_in base_dir (root @ [name]) sub @ walk_dirs base_dir (root @ [name]) sub)
     @ walk_dirs base_dir root es"

definition scan_org_files :: "string \<Rightarrow> fs_entry list \<Rightarrow> OrgFile list" where
  \<comment> \<open>\<open>scan_org_files(base_dir)\<close> where \<open>entries\<close> are the entries of \<open>base_dir\<close>.\<close>
  "scan_org_files base_dir entries =
     sort_key (\<lambda>f. lower (relative_path f))
       (org_files_in base_dir [] entries @ walk_dirs base_dir [] entries)"

section \<open>The stages of link resolution\<close>

text \<open>
  The resolver's steps as the design document numbers them, each as a function of its
  own; \<open>resolve_link_target_stages\<close> below shows that \<open>resolve_link_target\<close> is their
  composition.
\<close>

definition strip_fragment :: "string \<Rightarrow> string" where
  \<comment> \<open>Step 2: the target without its \<open>::fragment\<close> and then without its \<open>#fragment\<close>.\<close>
  "strip_fragment target =
     (let target = (if contains target ''::'' then before_first target ''::'' else target)
      in if contains target ''#'' then before_first target ''#'' else target)"

definition scheme_target :: "string \<Rightarrow> string option" where
  \<comment> \<open>Steps 4 to 6: the path of a target that is not an identifier; \<open>None\<close> for an
      external link or an unrecognised scheme.\<close>
  "scheme_target target =
     (if startswith target ''file:'' then Some (drop 5 target)
      else if contains target ''://'' then None
      else if contains target '':'' \<and> \<not> endswith target ''.org'' then None
      else Some target)"

definition path_target :: "string \<Rightarrow> string option" where
  \<comment> \<open>The raw targets that are treated as a path, with the path they stand for.\<close>
  "path_target raw_target =
     (let target = strip_fragment (strip raw_target) in
      if strip raw_target = [] then None
      else if startswith (lower target) ''id:'' then None
      else scheme_target target)"

definition link_candidate :: "string \<Rightarrow> string \<Rightarrow> string" where
  \<comment> \<open>Step 7: the candidate of a path target.\<close>
  "link_candidate source_relative_path target =
     (if startswith target ''/'' then normalize_relative_path (lstrip_chars ''/'' target)
      else normalize_relative_path (path_join (dirname source_relative_path) target))"

definition match_candidate :: "string set \<Rightarrow> string \<Rightarrow> string option" where
  \<comment> \<open>Steps 8 to 10: the candidate looked up in the known paths.\<close>
  "match_candidate known_paths candidate =
     (if candidate = [] then None
      else if candidate \<in> known_paths then Some candidate
      else if \<not> endswith candidate ''.org''
      then (if candidate @ ''.org'' \<in> known_paths then Some (candidate @ ''.org'') else None)
      else None)"

definition candidate_as_specified :: "string \<Rightarrow> string \<Rightarrow> string" where
  \<comment> \<open>Step 7 in the words of the design document: a target is joined to the directory
      of the source note and its \<open>.\<close> and \<open>..\<close> segments are normalised; a target with a
      leading slash is normalised below the root of the corpus.\<close>
  "candidate_as_specified source_relative_path target =
     (if startswith target ''/'' then normpath (lstrip_chars ''/'' target)
      else normpath (path_join (dirname source_relative_path) target))"

section \<open>Backlinks, stated\<close>

definition links_to :: "OrgFile list \<Rightarrow> OrgFile \<Rightarrow> string \<Rightarrow> bool" where
  \<comment> \<open>Some link target in the text of \<open>source\<close> resolves to \<open>p\<close> in the corpus \<open>files\<close>.\<close>
  "links_to files source p =
     list_ex (\<lambda>raw_target.
         resolve_link_target (relative_path source) raw_target
           (known_paths_of files) (id_to_path_of files) = Some p)
       (extract_org_link_targets (content source))"

definition backlink_sources :: "OrgFile list \<Rightarrow> string \<Rightarrow> OrgFile list" where
  \<comment> \<open>The notes of the corpus, other than \<open>p\<close> itself, that link to \<open>p\<close>: each note once,
      however many of its targets resolve to \<open>p\<close>.\<close>
  "backlink_sources files p = filter (\<lambda>s. relative_path s \<noteq> p \<and> links_to files s p) files"

definition counted :: "OrgFile \<Rightarrow> string set \<Rightarrow> (string \<rightharpoonup> string) \<Rightarrow> string list \<Rightarrow> string set" where
  \<comment> \<open>The paths that the targets \<open>raws\<close> of \<open>source\<close> can add to the counts.\<close>
  "counted source kp ids raws =
     {r. r \<noteq> [] \<and> r \<noteq> relative_path source \<and>
         (\<exists>raw \<in> set raws. resolve_link_target (relative_path source) raw kp ids = Some r)}"

section \<open>Rendering, stated\<close>

definition heading_text :: "string \<Rightarrow> string" where
  \<comment> \<open>The line as the renderer tests it: trimmed of leading white space.\<close>
  "heading_text raw_line = lstrip (rstrip_chars [CHR 0x0A] raw_line)"

definition heading_markers :: "string \<Rightarrow> nat" where
  \<comment> \<open>The number of heading markers that start a text.\<close>
  "heading_markers s = length (takeWhile (\<lambda>c. c = CHR ''*'') s)"

definition heading_line :: "string \<Rightarrow> bool" where
  \<comment> \<open>One or more markers followed by a space.\<close>
  "heading_line raw_line =
     (let s = heading_text raw_line; n = heading_markers s
      in 0 < n \<and> n < length s \<and> s ! n = CHR '' '')"

definition heading_line_as_specified :: "string \<Rightarrow> bool" where
  \<comment> \<open>One or more markers followed by a space and a non-empty remainder.\<close>
  "heading_line_as_specified raw_line =
     (let s = heading_text raw_line; n = heading_markers s
      in 0 < n \<and> n < length s \<and> s ! n = CHR '' '' \<and> drop (n + 1) s \<noteq> [])"

definition heading_element :: "nat \<Rightarrow> string \<Rightarrow> string" where
  "heading_element level body =
     ''<h'' @ str_nat level @ ''>'' @ body @ ''</h'' @ str_nat level @ ''>''"

definition plain_line :: "string \<Rightarrow> bool" where
  \<comment> \<open>A line without link syntax and without a bare URL.\<close>
  "plain_line line = (fst (finditer ORG_LINK_RE line) = [] \<and> fst (finditer URL_RE line) = [])"

definition plain_note :: "string \<Rightarrow> bool" where
  \<comment> \<open>A text without heading lines, blank lines, link syntax and bare URLs.\<close>
  "plain_note content' =
     list_all (\<lambda>line. \<not> heading_line line \<and> heading_text line \<noteq> [] \<and> plain_line line)
       (splitlines content')"

section \<open>A small corpus\<close>

text \<open>
  The corpus of the design document's examples: \<open>a.org\<close> links to \<open>b.org\<close> (here twice,
  and once to itself), \<open>c.org\<close> carries the identifier \<open>XYZ\<close> and links to \<open>b.org\<close> too.
\<close>

definition note_a :: OrgFile where
  "note_a = \<lparr>path = ''/n/a.org'', relative_path = ''a.org'', title = ''a'', file_id = None,
     content = ''[[b.org][See B]] and [[b]] and [[a.org]] and [[id:xyz]]''\<rparr>"

definition note_b :: OrgFile where
  "note_b = \<lparr>path = ''/n/b.org'', relative_path = ''b.org'', title = ''B Note'', file_id = None,
     content = ''#+TITLE: B Note''\<rparr>"

definition note_c :: OrgFile where
  "note_c = \<lparr>path = ''/n/c.org'', relative_path = ''c.org'', title = ''c'', file_id = Some ''XYZ'',
     content = ''[[b.org]]''\<rparr>"

text \<open>
  A corpus for the backlink list: three notes link to \<open>t.org\<close>, the first of them three
  times and the third through the identifier of \<open>t.org\<close>; \<open>t.org\<close> links to itself. The
  titles \<open>Alpha\<close> and \<open>alpha\<close> differ in case only, and so do the first letters of the
  paths of their notes. The last corpus holds a note whose path reads like an identifier
  link.
\<close>

definition linker_a :: OrgFile where
  "linker_a = \<lparr>path = ''/n/a.org'', relative_path = ''a.org'', title = ''Zeta'', file_id = None,
     content = ''[[t.org]] then [[t][again]] and [[./t.org::*Top]]''\<rparr>"

definition linker_C :: OrgFile where
  "linker_C = \<lparr>path = ''/n/C.org'', relative_path = ''C.org'', title = ''Alpha'', file_id = None,
     content = ''[[t.org]]''\<rparr>"

definition linker_b :: OrgFile where
  "linker_b = \<lparr>path = ''/n/b.org'', relative_path = ''b.org'', title = ''alpha'', file_id = None,
     content = ''[[id:tt]]''\<rparr>"

definition bystander_d :: OrgFile where
  "bystander_d = \<lparr>path = ''/n/d.org'', relative_path = ''d.org'', title = ''Beta'', file_id = None,
     content = ''[[a.org]]''\<rparr>"

definition selected_t :: OrgFile where
  "selected_t = \<lparr>path = ''/n/t.org'', relative_path = ''t.org'', title = ''T'', file_id = Some ''TT'',
     content = ''[[t.org]]''\<rparr>"

definition id_notes :: "OrgFile list" where
  "id_notes =
     [\<lparr>path = ''/n/ID: Notes.Org'', relative_path = ''ID: Notes.Org'', title = ''n'',
        file_id = None, content = []\<rparr>,
      \<lparr>path = ''/n/c.org'', relative_path = ''c.org'', title = ''c'',
        file_id = Some ''NOTES.ORG'', content = []\<rparr>]"

section \<open>Creation keys, stated\<close>

definition digits_value :: "string \<Rightarrow> int" where
  \<comment> \<open>The number that a text of decimal digits writes.\<close>
  "digits_value s = foldl (\<lambda>a c. 10 * a + (int (of_char c) - 48)) 0 s"

definition ts_fields ::
  "string \<times> string \<times> string \<times> (string \<times> string) option \<Rightarrow> int \<times> int \<times> int \<times> int \<times> int" where
  \<comment> \<open>Year, month, day, hour and minute of a parsed time stamp; the time is 00:00 when
      the time stamp has none.\<close>
  "ts_fields ts =
     (case ts of (y, mo, d, hm) \<Rightarrow>
        (digits_value y, digits_value mo, digits_value d,
         (case hm of Some (h, mi) \<Rightarrow> digits_value h | None \<Rightarrow> 0),
         (case hm of Some (h, mi) \<Rightarrow> digits_value mi | None \<Rightarrow> 0)))"

definition sort_key_of :: "int \<times> int \<times> int \<times> int \<times> int \<Rightarrow> int" where
  \<comment> \<open>The sort key as the design document writes it.\<close>
  "sort_key_of f =
     (case f of (year, month, day, hour, minute) \<Rightarrow>
        ((year * 100 + month) * 100 + day) * 100 * 100 + hour * 100 + minute)"

definition created_timestamp ::
  "string \<Rightarrow> (string \<times> string \<times> string \<times> (string \<times> string) option) option" where
  \<comment> \<open>The first time stamp in the value of a \<open>CREATED\<close> line: lines without one are
      passed over.\<close>
  "created_timestamp content' =
     first_match (\<lambda>line. case CREATED_LINE_RE line of
                           None \<Rightarrow> None
                         | Some v \<Rightarrow> re_search ORG_TIMESTAMP_RE v)
       (splitlines content')"

definition has_created_directive :: "string \<Rightarrow> bool" where
  \<comment> \<open>Some line is a \<open>CREATED\<close> directive.\<close>
  "has_created_directive content' =
     list_ex (\<lambda>line. CREATED_LINE_RE line \<noteq> None) (splitlines content')"

definition digit_group :: "nat \<Rightarrow> string \<Rightarrow> bool" where
  \<comment> \<open>What a group \<open>(\d{n})\<close> can hold.\<close>
  "digit_group n g = (length g = n \<and> list_all is_digit g)"

definition ts_wf :: "string \<times> string \<times> string \<times> (string \<times> string) option \<Rightarrow> bool" where
  \<comment> \<open>What the groups of a match of the time-stamp pattern can hold.\<close>
  "ts_wf ts =
     (case ts of (y, mo, d, hm) \<Rightarrow>
        digit_group 4 y \<and> digit_group 2 mo \<and> digit_group 2 d \<and>
        (case hm of Some (h, mi) \<Rightarrow> digit_group 2 h \<and> digit_group 2 mi | None \<Rightarrow> True))"

definition field_bounds :: "int \<times> int \<times> int \<times> int \<times> int \<Rightarrow> bool" where
  \<comment> \<open>Fields written with two digits each, but for the year.\<close>
  "field_bounds f =
     (case f of (year, month, day, hour, minute) \<Rightarrow>
        0 \<le> month \<and> month < 100 \<and> 0 \<le> day \<and> day < 100
        \<and> 0 \<le> hour \<and> hour < 100 \<and> 0 \<le> minute \<and> minute < 100)"

section \<open>Properties of link resolution\<close>

lemma strip_fragment_Nil: "strip_fragment [] = []"
  by (simp add: strip_fragment_def)

lemma resolve_link_target_stages:
  "resolve_link_target src raw kp ids =
     (if strip raw = [] then None
      else if startswith (lower (strip_fragment (strip raw))) ''id:''
      then ids (lower (strip (drop 3 (strip_fragment (strip raw)))))
      else case scheme_target (strip_fragment (strip raw)) of
             None \<Rightarrow> None
           | Some t \<Rightarrow> match_candidate kp (link_candidate src t))"
  by (simp only: resolve_link_target_def strip_fragment_def scheme_target_def
      match_candidate_def link_candidate_def Let_def)


lemma resolve_id_target:
  assumes "startswith (lower (strip_fragment (strip raw))) ''id:''"
  shows "resolve_link_target src raw kp ids = ids (lower (strip (drop 3 (strip_fragment (strip raw)))))"
proof -
  have "strip raw \<noteq> []"
    using assms by (auto simp: strip_fragment_Nil startswith_def lower_def)
  then show ?thesis
    using assms by (simp add: resolve_link_target_stages)
qed

lemma resolve_path_target:
  assumes "path_target raw = Some t"
  shows "resolve_link_target src raw kp ids = match_candidate kp (link_candidate src t)"
  using assms
  by (simp add: resolve_link_target_stages path_target_def Let_def split: if_splits)

lemma resolve_not_path:
  assumes "path_target raw = None" "\<not> startswith (lower (strip_fragment (strip raw))) ''id:''"
  shows "resolve_link_target src raw kp ids = None"
  using assms
  by (simp add: resolve_link_target_stages path_target_def Let_def split: if_splits)

lemma resolve_in_known:
  assumes "ran ids \<subseteq> kp" "resolve_link_target src raw kp ids = Some p"
  shows "p \<in> kp"
proof (cases "startswith (lower (strip_fragment (strip raw))) ''id:''")
  case True
  with assms(2) have "ids (lower (strip (drop 3 (strip_fragment (strip raw))))) = Some p"
    by (simp add: resolve_id_target)
  then show ?thesis using assms(1) by (auto simp: ran_def)
next
  case False
  show ?thesis
  proof (cases "path_target raw")
    case None
    with False assms(2) show ?thesis by (simp add: resolve_not_path)
  next
    case (Some t)
    with assms(2) show ?thesis
      by (auto simp: resolve_path_target match_candidate_def split: if_splits)
  qed
qed


lemma id_to_path_of_snoc:
  "id_to_path_of (fs @ [g]) =
     (case file_id g of
        None \<Rightarrow> id_to_path_of fs
      | Some i \<Rightarrow> if i = [] then id_to_path_of fs else (id_to_path_of fs)(lower i \<mapsto> relative_path g))"
  by (cases "file_id g") (simp_all add: id_to_path_of_def)

lemma lower_Nil_iff: "lower i = [] \<longleftrightarrow> i = []"
  by (simp add: lower_def)

lemma id_to_path_of_unique:
  assumes "f \<in> set files" "file_id f = Some i" "i \<noteq> []"
    and "\<forall>g \<in> set files. \<forall>j. file_id g = Some j \<and> lower j = lower i \<longrightarrow>
           relative_path g = relative_path f"
  shows "id_to_path_of files (lower i) = Some (relative_path f)"
  using assms(1,4)
proof (induction files rule: rev_induct)
  case Nil
  then show ?case by simp
next
  case (snoc g fs)
  show ?case
  proof (cases "\<exists>j. file_id g = Some j \<and> lower j = lower i")
    case True
    then obtain j where j: "file_id g = Some j" "lower j = lower i" by blast
    with snoc.prems(2) have "relative_path g = relative_path f" by simp
    moreover from j assms(3) have "j \<noteq> []" using lower_Nil_iff by metis
    ultimately show ?thesis using j by (simp add: id_to_path_of_snoc)
  next
    case False
    with assms(2) have "g \<noteq> f" by auto
    with snoc.prems(1) have m: "f \<in> set fs" by simp
    from snoc.prems(2) have u: "\<forall>g \<in> set fs. \<forall>j. file_id g = Some j \<and> lower j = lower i \<longrightarrow>
           relative_path g = relative_path f" by simp
    have "id_to_path_of (fs @ [g]) (lower i) = id_to_path_of fs (lower i)"
      using False by (auto simp: id_to_path_of_snoc split: option.splits)
    then show ?thesis using snoc.IH [OF m u] by simp
  qed
qed

lemma id_to_path_of_absent:
  assumes "\<forall>g \<in> set files. \<forall>j. file_id g = Some j \<longrightarrow> lower j \<noteq> k"
  shows "id_to_path_of files k = None"
  using assms
proof (induction files rule: rev_induct)
  case Nil
  then show ?case by (simp add: id_to_path_of_def)
next
  case (snoc g fs)
  then have "id_to_path_of fs k = None" by simp
  moreover have "\<forall>j. file_id g = Some j \<longrightarrow> lower j \<noteq> k" using snoc.prems by simp
  ultimately show ?case by (auto simp: id_to_path_of_snoc split: option.splits)
qed


text \<open>
  Claim C1. When the raw target, trimmed and without its fragment, starts with \<open>id:\<close> in
  any case, \<open>resolve_link_target\<close> returns what the identifier index holds for the rest
  of the target, trimmed and in lower case: that path, or \<open>None\<close> when the identifier is
  absent. The source path and the known paths play no part, so a note whose path is the
  literal text of the target changes nothing. With the index of a corpus, the target
  resolves to the note whose identifier in lower case is that key, whatever the case in
  which the note and the link write it, and to \<open>None\<close> when no note has such an
  identifier.
\<close>

theorem id_target_resolves_by_index:
  assumes "startswith (lower (strip_fragment (strip raw_target))) ''id:''"
  shows "resolve_link_target src raw_target kp ids =
       ids (lower (strip (drop 3 (strip_fragment (strip raw_target)))))
     \<and> (\<forall>src' kp'. resolve_link_target src' raw_target kp' ids =
           resolve_link_target src raw_target kp ids)
     \<and> (\<forall>(files :: OrgFile list) f i.
           f \<in> set files \<and> file_id f = Some i \<and> i \<noteq> []
           \<and> lower i = lower (strip (drop 3 (strip_fragment (strip raw_target))))
           \<and> (\<forall>g \<in> set files. \<forall>j. file_id g = Some j \<and> lower j = lower i \<longrightarrow>
                 relative_path g = relative_path f)
           \<longrightarrow> resolve_link_target src raw_target kp (id_to_path_of files) = Some (relative_path f))
     \<and> (\<forall>files :: OrgFile list.
           (\<forall>g \<in> set files. \<forall>j. file_id g = Some j \<longrightarrow>
              lower j \<noteq> lower (strip (drop 3 (strip_fragment (strip raw_target)))))
           \<longrightarrow> resolve_link_target src raw_target kp (id_to_path_of files) = None)"
proof -
  define key where "key = lower (strip (drop 3 (strip_fragment (strip raw_target))))"
  have r: "resolve_link_target s raw_target k m = m key" for s k m
    unfolding key_def using assms by (rule resolve_id_target)
  have c2: "resolve_link_target src' raw_target kp' ids = resolve_link_target src raw_target kp ids"
    for src' kp'
    unfolding r ..
  have c3: "resolve_link_target src raw_target kp (id_to_path_of files) = Some (relative_path f)"
    if "f \<in> set files \<and> file_id f = Some i \<and> i \<noteq> [] \<and> lower i = key
        \<and> (\<forall>g \<in> set files. \<forall>j. file_id g = Some j \<and> lower j = lower i \<longrightarrow>
              relative_path g = relative_path f)"
    for files :: "OrgFile list" and f i
  proof -
    from that have m: "f \<in> set files" and i: "file_id f = Some i" and n: "i \<noteq> []"
      and l: "lower i = key"
      and u: "\<forall>g \<in> set files. \<forall>j. file_id g = Some j \<and> lower j = lower i \<longrightarrow>
              relative_path g = relative_path f"
      by blast+
    have "id_to_path_of files (lower i) = Some (relative_path f)"
      using m i n u by (rule id_to_path_of_unique)
    then show ?thesis unfolding r l .
  qed
  have c4: "resolve_link_target src raw_target kp (id_to_path_of files) = None"
    if "\<forall>g \<in> set files. \<forall>j. file_id g = Some j \<longrightarrow> lower j \<noteq> key"
    for files :: "OrgFile list"
    unfolding r using that by (rule id_to_path_of_absent)
  show ?thesis
    unfolding key_def [symmetric] using r c2 c3 c4 by blast
qed

theorem id_target_resolves_by_index_witness:
  "startswith (lower (strip_fragment (strip ''  ID: Notes.Org#sec ''))) ''id:''
   \<and> strip_fragment (strip ''  ID: Notes.Org#sec '') \<in> known_paths_of id_notes
   \<and> resolve_link_target ''a.org'' ''  ID: Notes.Org#sec '' (known_paths_of id_notes)
        (id_to_path_of id_notes) = Some ''c.org''"
proof -
  let ?f = "\<lparr>path = ''/n/c.org'', relative_path = ''c.org'', title = ''c'',
        file_id = Some ''NOTES.ORG'', content = []\<rparr>"
  have h: "startswith (lower (strip_fragment (strip ''  ID: Notes.Org#sec ''))) ''id:''"
    by code_simp
  have k: "strip_fragment (strip ''  ID: Notes.Org#sec '') \<in> known_paths_of id_notes"
    by code_simp
  have m: "?f \<in> set id_notes"
    by (simp add: id_notes_def)
  have l: "lower ''NOTES.ORG'' = lower (strip (drop 3 (strip_fragment (strip ''  ID: Notes.Org#sec ''))))"
    by code_simp
  have u: "\<forall>g \<in> set id_notes. \<forall>j. file_id g = Some j \<and> lower j = lower ''NOTES.ORG'' \<longrightarrow>
      relative_path g = relative_path ?f"
    by (simp add: id_notes_def)
  from id_target_resolves_by_index [OF h, of "''a.org''" "known_paths_of id_notes" "id_to_path_of id_notes"]
  have "\<forall>(files :: OrgFile list) f i.
           f \<in> set files \<and> file_id f = Some i \<and> i \<noteq> []
           \<and> lower i = lower (strip (drop 3 (strip_fragment (strip ''  ID: Notes.Org#sec ''))))
           \<and> (\<forall>g \<in> set files. \<forall>j. file_id g = Some j \<and> lower j = lower i \<longrightarrow>
                 relative_path g = relative_path f)
           \<longrightarrow> resolve_link_target ''a.org'' ''  ID: Notes.Org#sec '' (known_paths_of id_notes)
                  (id_to_path_of files) = Some (relative_path f)"
    by blast
  then have "?f \<in> set id_notes \<and> file_id ?f = Some ''NOTES.ORG'' \<and> ''NOTES.ORG'' \<noteq> []
           \<and> lower ''NOTES.ORG'' = lower (strip (drop 3 (strip_fragment (strip ''  ID: Notes.Org#sec ''))))
           \<and> (\<forall>g \<in> set id_notes. \<forall>j. file_id g = Some j \<and> lower j = lower ''NOTES.ORG'' \<longrightarrow>
                 relative_path g = relative_path ?f)
           \<longrightarrow> resolve_link_target ''a.org'' ''  ID: Notes.Org#sec '' (known_paths_of id_notes)
                  (id_to_path_of id_notes) = Some (relative_path ?f)"
    by blast
  with m l u have "resolve_link_target ''a.org'' ''  ID: Notes.Org#sec '' (known_paths_of id_notes)
                  (id_to_path_of id_notes) = Some (relative_path ?f)"
    by simp
  with h k show ?thesis by simp
qed

text \<open>
  Claim C3 has the candidate of a path target be the target joined to the directory of
  the source note, with its \<open>.\<close> and \<open>..\<close> segments normalised. \<open>normalize_relative_path\<close>
  then drops every leading dot and slash of the normalised path (\<open>lstrip("./")\<close>). The
  link \<open>.b.org\<close> in the note \<open>a.org\<close> names a path that no note has, and resolves to
  \<open>b.org\<close>; the link \<open>../../b.org\<close> in \<open>sub/a.org\<close> names a path above the root of the
  corpus, and resolves to \<open>b.org\<close> as well.
\<close>

theorem path_candidate_strips_dots:
  "path_target ''.b.org'' = Some ''.b.org''
   \<and> candidate_as_specified ''a.org'' ''.b.org'' = ''.b.org''
   \<and> ''.b.org'' \<notin> {''a.org'', ''b.org''}
   \<and> resolve_link_target ''a.org'' ''.b.org'' {''a.org'', ''b.org''} Map.empty = Some ''b.org''
   \<and> path_target ''../../b.org'' = Some ''../../b.org''
   \<and> candidate_as_specified ''sub/a.org'' ''../../b.org'' = ''../b.org''
   \<and> ''../b.org'' \<notin> {''sub/a.org'', ''b.org''}
   \<and> resolve_link_target ''sub/a.org'' ''../../b.org'' {''sub/a.org'', ''b.org''} Map.empty
        = Some ''b.org''"
  by code_simp

text \<open>
  Claim C4. Let the known paths be those of a corpus, none of which is empty, and take
  the candidate of a path target. A candidate among the known paths is returned as it
  is. The candidate with \<open>.org\<close> appended is returned only when the candidate is not known
  and does not end in \<open>.org\<close>: a candidate that is not known and ends in \<open>.org\<close> is
  unresolved, even when the candidate with a second \<open>.org\<close> is known, and a non-empty
  candidate that is not known and does not end in \<open>.org\<close> resolves to the candidate with
  \<open>.org\<close> when that is known, and is unresolved otherwise.
\<close>

theorem suffix_fallback_only_when_absent:
  assumes "path_target raw_target = Some t" and "[] \<notin> kp"
  shows "(link_candidate src t \<in> kp \<longrightarrow>
            resolve_link_target src raw_target kp ids = Some (link_candidate src t))
     \<and> (resolve_link_target src raw_target kp ids = Some (link_candidate src t @ ''.org'') \<longrightarrow>
            link_candidate src t \<notin> kp \<and> \<not> endswith (link_candidate src t) ''.org'')
     \<and> (link_candidate src t \<notin> kp \<and> endswith (link_candidate src t) ''.org'' \<longrightarrow>
            resolve_link_target src raw_target kp ids = None)
     \<and> (link_candidate src t \<noteq> [] \<and> link_candidate src t \<notin> kp
           \<and> \<not> endswith (link_candidate src t) ''.org'' \<longrightarrow>
            resolve_link_target src raw_target kp ids =
              (if link_candidate src t @ ''.org'' \<in> kp
               then Some (link_candidate src t @ ''.org'') else None))"
  using assms by (auto simp: resolve_path_target match_candidate_def split: if_splits)

theorem suffix_fallback_only_when_absent_witness:
  "path_target ''b.org'' = Some ''b.org'' \<and> [] \<notin> {''b.org.org'', ''c.org''}
   \<and> link_candidate ''a.org'' ''b.org'' = ''b.org''
   \<and> resolve_link_target ''a.org'' ''b.org'' {''b.org.org'', ''c.org''} Map.empty = None"
proof -
  have h: "path_target ''b.org'' = Some ''b.org''"
    by code_simp
  have k: "[] \<notin> {''b.org.org'', ''c.org''}"
    by simp
  have c: "link_candidate ''a.org'' ''b.org'' = ''b.org''"
    by code_simp
  have e: "endswith ''b.org'' ''.org''"
    by code_simp
  show ?thesis
    using h k c e suffix_fallback_only_when_absent [OF h k, of "''a.org''" Map.empty]
    by simp
qed

text \<open>
  Claim C10. When every path of the identifier index is a known path, whatever
  \<open>resolve_link_target\<close> returns is a known path, also for targets with \<open>..\<close> segments or
  leading slashes.
\<close>

theorem resolved_path_is_known:
  assumes "ran ids \<subseteq> kp" and "resolve_link_target src raw_target kp ids = Some p"
  shows "p \<in> kp"
  using assms by (rule resolve_in_known)

theorem resolved_path_is_known_witness:
  "ran [''k'' \<mapsto> ''c.org''] \<subseteq> {''b.org'', ''c.org''}
   \<and> resolve_link_target ''sub/a.org'' ''/../../b'' {''b.org'', ''c.org''} [''k'' \<mapsto> ''c.org'']
       = Some ''b.org''
   \<and> ''b.org'' \<in> {''b.org'', ''c.org''}"
proof -
  have h: "ran [''k'' \<mapsto> ''c.org''] \<subseteq> {''b.org'', ''c.org''}"
    by simp
  have r: "resolve_link_target ''sub/a.org'' ''/../../b'' {''b.org'', ''c.org''} [''k'' \<mapsto> ''c.org'']
       = Some ''b.org''"
    by code_simp
  show ?thesis
    using h r resolved_path_is_known [OF h r] by simp
qed

section \<open>Properties of the backlink counts\<close>

lemma counted_Nil: "counted source kp ids [] = {}"
  by (simp add: counted_def)

lemma counted_Cons:
  "counted source kp ids (raw # raws) =
     (case resolve_link_target (relative_path source) raw kp ids of
        None \<Rightarrow> counted source kp ids raws
      | Some r \<Rightarrow> if r = [] \<or> r = relative_path source then counted source kp ids raws
                  else insert r (counted source kp ids raws))"
  by (auto simp: counted_def split: option.splits)

lemma count_target_fold:
  "foldl (count_target source kp ids) (c, seen) raws = (c', seen') \<Longrightarrow>
     c' p = (if p \<in> counted source kp ids raws - seen then map_option (\<lambda>n. n + 1) (c p) else c p)"
proof (induction raws arbitrary: c seen)
  case Nil
  then show ?case by (simp add: counted_Nil)
next
  case (Cons raw raws)
  obtain c1 seen1 where step: "count_target source kp ids (c, seen) raw = (c1, seen1)"
    by (cases "count_target source kp ids (c, seen) raw")
  with Cons.prems have "foldl (count_target source kp ids) (c1, seen1) raws = (c', seen')"
    by simp
  from Cons.IH [OF this]
  have IH: "c' p = (if p \<in> counted source kp ids raws - seen1
                    then map_option (\<lambda>n. n + 1) (c1 p) else c1 p)" .
  show ?case
  proof (cases "resolve_link_target (relative_path source) raw kp ids")
    case None
    with step have "c1 = c" "seen1 = seen" by (simp_all add: count_target_def)
    with IH None show ?thesis by (simp add: counted_Cons)
  next
    case (Some r)
    show ?thesis
    proof (cases "r = [] \<or> r = relative_path source \<or> r \<in> seen")
      case True
      with step Some have "c1 = c" "seen1 = seen" by (auto simp: count_target_def)
      with IH Some True show ?thesis by (auto simp: counted_Cons)
    next
      case False
      show ?thesis
      proof (cases "c r")
        case None
        with step Some False have "c1 = c" "seen1 = seen" by (auto simp: count_target_def)
        with IH Some False None show ?thesis by (auto simp: counted_Cons)
      next
        case (Some n)
        with step \<open>resolve_link_target (relative_path source) raw kp ids = Some r\<close> False
        have "c1 = c(r \<mapsto> n + 1)" "seen1 = insert r seen" by (auto simp: count_target_def)
        with IH \<open>resolve_link_target (relative_path source) raw kp ids = Some r\<close> False Some
        show ?thesis by (auto simp: counted_Cons)
      qed
    qed
  qed
qed

lemma count_source_eq:
  "count_source kp ids c source p =
     (if p \<in> counted source kp ids (extract_org_link_targets (content source))
      then map_option (\<lambda>n. n + 1) (c p) else c p)"
proof -
  obtain c' seen' where
    "foldl (count_target source kp ids) (c, {}) (extract_org_link_targets (content source)) = (c', seen')"
    by (cases "foldl (count_target source kp ids) (c, {}) (extract_org_link_targets (content source))")
  then show ?thesis
    using count_target_fold [of source kp ids c "{}" _ c' seen' p]
    by (simp add: count_source_def)
qed

lemma count_source_fold:
  "foldl (count_source kp ids) c files p =
     map_option (\<lambda>n. n + int (length (filter
        (\<lambda>s. p \<in> counted s kp ids (extract_org_link_targets (content s))) files))) (c p)"
proof (induction files arbitrary: c)
  case Nil
  then show ?case by (simp add: option.map_ident)
next
  case (Cons f files)
  have "foldl (count_source kp ids) c (f # files) p =
      foldl (count_source kp ids) (count_source kp ids c f) files p"
    by simp
  also have "\<dots> = map_option (\<lambda>n. n + int (length (filter
        (\<lambda>s. p \<in> counted s kp ids (extract_org_link_targets (content s))) files)))
        (count_source kp ids c f p)"
    by (rule Cons.IH)
  finally have e: "foldl (count_source kp ids) c (f # files) p =
      map_option (\<lambda>n. n + int (length (filter
        (\<lambda>s. p \<in> counted s kp ids (extract_org_link_targets (content s))) files)))
        (count_source kp ids c f p)" .
  show ?case
    unfolding e by (cases "c p") (simp_all add: count_source_eq)
qed

lemma initial_counts:
  "foldl (\<lambda>m f. m(relative_path f \<mapsto> (0::int))) m0 files p =
     (if p \<in> set (map relative_path files) then Some 0 else m0 p)"
  by (induction files arbitrary: m0) auto

lemma counted_links_to:
  "p \<in> counted s (known_paths_of files) (id_to_path_of files) (extract_org_link_targets (content s))
     \<longleftrightarrow> p \<noteq> [] \<and> relative_path s \<noteq> p \<and> links_to files s p"
  by (auto simp: counted_def links_to_def list_ex_iff)

lemma build_backlink_counts_eq:
  "build_backlink_counts files p =
     (if p \<in> known_paths_of files
      then Some (if p = [] then 0 else int (length (backlink_sources files p)))
      else None)"
proof -
  have "build_backlink_counts files p =
      map_option (\<lambda>n. n + int (length (filter
        (\<lambda>s. p \<noteq> [] \<and> relative_path s \<noteq> p \<and> links_to files s p) files)))
        (if p \<in> set (map relative_path files) then Some 0 else None)"
    by (simp only: build_backlink_counts_def Let_def count_source_fold initial_counts
        counted_links_to)
  then show ?thesis
    by (simp add: backlink_sources_def known_paths_of_def)
qed

text \<open>
  Claim C5. For a corpus none of whose paths is empty, the keys of
  \<open>build_backlink_counts\<close> are the paths of its notes, every count is at least 0, and the
  count of a path is the number of the notes with another path that have at least one
  link target resolving to it: a note never counts for itself, and it counts once
  however many of its targets resolve to the same path.
\<close>

theorem build_backlink_counts_spec:
  assumes "[] \<notin> known_paths_of files"
  shows "dom (build_backlink_counts files) = known_paths_of files
    \<and> (\<forall>p n. build_backlink_counts files p = Some n \<longrightarrow> 0 \<le> n)
    \<and> (\<forall>p \<in> known_paths_of files.
          build_backlink_counts files p = Some (int (length (backlink_sources files p))))"
proof (intro conjI)
  show "dom (build_backlink_counts files) = known_paths_of files"
    by (auto simp: build_backlink_counts_eq dom_def)
  show "\<forall>p n. build_backlink_counts files p = Some n \<longrightarrow> 0 \<le> n"
    by (auto simp: build_backlink_counts_eq split: if_splits)
  show "\<forall>p \<in> known_paths_of files.
          build_backlink_counts files p = Some (int (length (backlink_sources files p)))"
    using assms by (auto simp: build_backlink_counts_eq)
qed

theorem build_backlink_counts_spec_witness:
  "[] \<notin> known_paths_of [note_a, note_b, note_c]
   \<and> ''b.org'' \<in> known_paths_of [note_a, note_b, note_c]
   \<and> length (extract_org_link_targets (content note_a)) = 4
   \<and> build_backlink_counts [note_a, note_b, note_c] ''b.org'' = Some 2
   \<and> build_backlink_counts [note_a, note_b, note_c] ''a.org'' = Some 0"
proof -
  have h: "[] \<notin> known_paths_of [note_a, note_b, note_c]"
    by code_simp
  have a: "''a.org'' \<in> known_paths_of [note_a, note_b, note_c]"
    and b: "''b.org'' \<in> known_paths_of [note_a, note_b, note_c]"
    by code_simp+
  have la: "length (backlink_sources [note_a, note_b, note_c] ''a.org'') = 0"
    and lb: "length (backlink_sources [note_a, note_b, note_c] ''b.org'') = 2"
    and n: "length (extract_org_link_targets (content note_a)) = 4"
    by code_simp+
  from build_backlink_counts_spec [OF h]
  have "\<forall>p \<in> known_paths_of [note_a, note_b, note_c].
      build_backlink_counts [note_a, note_b, note_c] p
        = Some (int (length (backlink_sources [note_a, note_b, note_c] p)))"
    by blast
  with a b have "build_backlink_counts [note_a, note_b, note_c] ''a.org''
        = Some (int (length (backlink_sources [note_a, note_b, note_c] ''a.org'')))"
    and "build_backlink_counts [note_a, note_b, note_c] ''b.org''
        = Some (int (length (backlink_sources [note_a, note_b, note_c] ''b.org'')))"
    by blast+
  with h b n la lb show ?thesis by simp
qed

section \<open>Properties of the backlink list\<close>

lemma find_backlinks_step_eq:
  "find_backlinks_step sel (known_paths_of files) (id_to_path_of files) (bl, seen) source =
     (if relative_path source \<noteq> sel \<and> links_to files source sel \<and> relative_path source \<notin> seen
      then (bl @ [source], insert (relative_path source) seen) else (bl, seen))"
  by (auto simp: find_backlinks_step_def links_to_def list_ex_iff)

lemma find_backlinks_fold:
  assumes "foldl (find_backlinks_step sel (known_paths_of files) (id_to_path_of files))
             (bl, seen) fs = (bl', seen')"
    and "seen = set (map relative_path bl)" "distinct (map relative_path bl)"
  shows "distinct (map relative_path bl') \<and>
     set (map relative_path bl') = set (map relative_path bl) \<union>
       {relative_path f | f. f \<in> set fs \<and> relative_path f \<noteq> sel \<and> links_to files f sel}"
  using assms
proof (induction fs arbitrary: bl seen)
  case Nil
  then show ?case by simp
next
  case (Cons f fs)
  define st where "st = find_backlinks_step sel (known_paths_of files) (id_to_path_of files) (bl, seen) f"
  show ?case
  proof (cases "relative_path f \<noteq> sel \<and> links_to files f sel \<and> relative_path f \<notin> seen")
    case True
    then have st: "st = (bl @ [f], insert (relative_path f) seen)"
      by (simp add: st_def find_backlinks_step_eq)
    have run: "foldl (find_backlinks_step sel (known_paths_of files) (id_to_path_of files))
        (bl @ [f], insert (relative_path f) seen) fs = (bl', seen')"
      using Cons.prems(1) st by (simp add: st_def)
    have "distinct (map relative_path bl') \<and>
       set (map relative_path bl') = set (map relative_path (bl @ [f])) \<union>
         {relative_path g | g. g \<in> set fs \<and> relative_path g \<noteq> sel \<and> links_to files g sel}"
      using True Cons.prems(2,3) by (intro Cons.IH [OF run]) auto
    with True show ?thesis by auto
  next
    case False
    then have st: "st = (bl, seen)"
      by (simp add: st_def find_backlinks_step_eq)
    have run: "foldl (find_backlinks_step sel (known_paths_of files) (id_to_path_of files))
        (bl, seen) fs = (bl', seen')"
      using Cons.prems(1) st by (simp add: st_def)
    have "distinct (map relative_path bl') \<and>
       set (map relative_path bl') = set (map relative_path bl) \<union>
         {relative_path g | g. g \<in> set fs \<and> relative_path g \<noteq> sel \<and> links_to files g sel}"
      using Cons.prems(2,3) by (intro Cons.IH [OF run]) auto
    with False Cons.prems(2) show ?thesis by auto
  qed
qed

lemma distinct_map_insort_key:
  "distinct (map g (insort_key k x xs)) = distinct (map g (x # xs))"
  by (induction xs) (auto simp: set_insort_key)

lemma distinct_map_sort_key: "distinct (map g (sort_key k xs)) = distinct (map g xs)"
  by (induction xs) (simp_all add: distinct_map_insort_key)

lemma find_backlinks_fold_members:
  assumes "foldl (find_backlinks_step sel (known_paths_of files) (id_to_path_of files))
             (bl, seen) fs = (bl', seen')"
  shows "set bl' \<subseteq> set bl \<union> {f \<in> set fs. relative_path f \<noteq> sel \<and> links_to files f sel}"
  using assms
proof (induction fs arbitrary: bl seen)
  case Nil
  then show ?case by simp
next
  case (Cons f fs)
  obtain bl1 seen1 where st:
    "find_backlinks_step sel (known_paths_of files) (id_to_path_of files) (bl, seen) f = (bl1, seen1)"
    by (cases "find_backlinks_step sel (known_paths_of files) (id_to_path_of files) (bl, seen) f")
  then have b1: "set bl1 \<subseteq> set bl \<union> {g. g = f \<and> relative_path f \<noteq> sel \<and> links_to files f sel}"
    by (auto simp: find_backlinks_step_eq split: if_splits)
  have run: "foldl (find_backlinks_step sel (known_paths_of files) (id_to_path_of files))
        (bl1, seen1) fs = (bl', seen')"
    using Cons.prems st by simp
  from Cons.IH [OF run] b1 show ?case by auto
qed

text \<open>
  Claim C6. The notes that \<open>find_backlinks\<close> returns have pairwise different paths, so
  that a source is returned at most once however many of its targets resolve to the
  selected path; the selected path is not among them; each of them is a note of the
  corpus, with another path than the selected one, that links to the selected path, and
  the path of every such note is among theirs; and the list is sorted by the title in
  lower case, then by the path in lower case.
\<close>

theorem find_backlinks_spec:
  "distinct (map relative_path (find_backlinks files sel))
   \<and> sel \<notin> set (map relative_path (find_backlinks files sel))
   \<and> (\<forall>f \<in> set (find_backlinks files sel).
         f \<in> set files \<and> relative_path f \<noteq> sel \<and> links_to files f sel)
   \<and> set (map relative_path (find_backlinks files sel)) =
       {relative_path f | f. f \<in> set files \<and> relative_path f \<noteq> sel \<and> links_to files f sel}
   \<and> sorted (map (\<lambda>f. (lower (title f), lower (relative_path f))) (find_backlinks files sel))"
proof -
  obtain bl seen where run:
    "foldl (find_backlinks_step sel (known_paths_of files) (id_to_path_of files)) ([], {}) files
       = (bl, seen)"
    by (cases "foldl (find_backlinks_step sel (known_paths_of files) (id_to_path_of files)) ([], {}) files")
  have key: "backlink_key = (\<lambda>f. (lower (title f), lower (relative_path f)))"
    by (rule ext) (simp add: backlink_key_def)
  have fb: "find_backlinks files sel
      = sort_key (\<lambda>f. (lower (title f), lower (relative_path f))) bl"
    by (simp add: find_backlinks_def Let_def run key)
  from find_backlinks_fold [OF run]
  have inv: "distinct (map relative_path bl)"
    "set (map relative_path bl) =
       {relative_path f | f. f \<in> set files \<and> relative_path f \<noteq> sel \<and> links_to files f sel}"
    by simp_all
  from find_backlinks_fold_members [OF run]
  have mem: "set bl \<subseteq> {f \<in> set files. relative_path f \<noteq> sel \<and> links_to files f sel}"
    by simp
  have "distinct (map relative_path (find_backlinks files sel))"
    by (simp add: fb distinct_map_sort_key inv(1))
  moreover have s: "set (map relative_path (find_backlinks files sel)) =
       {relative_path f | f. f \<in> set files \<and> relative_path f \<noteq> sel \<and> links_to files f sel}"
    using inv(2) by (simp add: fb)
  moreover have "sel \<notin> set (map relative_path (find_backlinks files sel))"
    unfolding s by auto
  moreover have "\<forall>f \<in> set (find_backlinks files sel).
         f \<in> set files \<and> relative_path f \<noteq> sel \<and> links_to files f sel"
    using mem by (auto simp: fb)
  moreover have "sorted (map (\<lambda>f. (lower (title f), lower (relative_path f))) (find_backlinks files sel))"
    unfolding fb by (rule sorted_sort_key)
  ultimately show ?thesis by blast
qed

theorem find_backlinks_spec_witness:
  "find_backlinks [linker_a, linker_C, linker_b, bystander_d, selected_t] ''t.org''
     = [linker_b, linker_C, linker_a]
   \<and> map (\<lambda>f. (lower (title f), lower (relative_path f))) [linker_b, linker_C, linker_a]
     = [(''alpha'', ''b.org''), (''alpha'', ''c.org''), (''zeta'', ''a.org'')]
   \<and> map (\<lambda>raw. resolve_link_target ''a.org'' raw
            (known_paths_of [linker_a, linker_C, linker_b, bystander_d, selected_t])
            (id_to_path_of [linker_a, linker_C, linker_b, bystander_d, selected_t]))
        (extract_org_link_targets (content linker_a))
     = [Some ''t.org'', Some ''t.org'', Some ''t.org'']
   \<and> links_to [linker_a, linker_C, linker_b, bystander_d, selected_t] selected_t ''t.org''
   \<and> sorted [(''alpha'', ''b.org''), (''alpha'', ''c.org''), (''zeta'', ''a.org'')]"
proof -
  let ?files = "[linker_a, linker_C, linker_b, bystander_d, selected_t]"
  have r: "find_backlinks ?files ''t.org'' = [linker_b, linker_C, linker_a]"
    by code_simp
  have k: "map (\<lambda>f. (lower (title f), lower (relative_path f))) [linker_b, linker_C, linker_a]
     = [(''alpha'', ''b.org''), (''alpha'', ''c.org''), (''zeta'', ''a.org'')]"
    by code_simp
  have t: "map (\<lambda>raw. resolve_link_target ''a.org'' raw (known_paths_of ?files) (id_to_path_of ?files))
        (extract_org_link_targets (content linker_a))
     = [Some ''t.org'', Some ''t.org'', Some ''t.org'']"
    by code_simp
  have s: "links_to ?files selected_t ''t.org''"
    by code_simp
  from find_backlinks_spec [of ?files "''t.org''"]
  have "sorted (map (\<lambda>f. (lower (title f), lower (relative_path f))) (find_backlinks ?files ''t.org''))"
    by blast
  then have "sorted [(''alpha'', ''b.org''), (''alpha'', ''c.org''), (''zeta'', ''a.org'')]"
    unfolding r k .
  with r k t s show ?thesis by blast
qed

section \<open>Properties of the renderer\<close>

lemma stars_eq:
  "length s - length (lstrip_chars ''*'' s) = heading_markers s"
proof -
  have "length (dropWhile (\<lambda>c. c = CHR ''*'') s) = length s - length (takeWhile (\<lambda>c. c = CHR ''*'') s)"
    by (metis length_drop dropWhile_eq_drop)
  moreover have "length (takeWhile (\<lambda>c. c = CHR ''*'') s) \<le> length s"
    by (rule length_takeWhile_le)
  ultimately show ?thesis
    by (simp add: lstrip_chars_def heading_markers_def)
qed

lemma markers_pos: "0 < heading_markers s \<longleftrightarrow> startswith s ''*''"
  by (cases s) (auto simp: heading_markers_def startswith_def)

lemma render_org_line_cases:
  "render_org_line raw_line src kp ids =
     (if heading_line raw_line
      then heading_element (min (heading_markers (heading_text raw_line) + 1) 6)
             (html_escape (drop (heading_markers (heading_text raw_line) + 1) (heading_text raw_line)))
      else if heading_text raw_line = []
      then ''<div class='' @ [CHR 0x27] @ ''spacer'' @ [CHR 0x27] @ ''></div>''
      else ''<p>'' @ render_line_with_links (rstrip_chars [CHR 0x0A] raw_line) src kp ids @ ''</p>'')"
  unfolding render_org_line_def Let_def stars_eq heading_line_def heading_element_def
    heading_text_def [symmetric]
  by (auto simp: markers_pos)

text \<open>
  Claim C7, as amended. A line is rendered as a heading element exactly when, trimmed of
  leading white space, it starts with one or more markers followed by a space; the
  remainder may be empty. The level is the smaller of the number of markers plus one and
  6, and the title is the remainder after that space, escaped. Every other line is
  rendered as a spacer or a paragraph.
\<close>

theorem heading_rendering:
  "(heading_line raw_line \<longrightarrow>
      render_org_line raw_line src kp ids =
        heading_element (min (heading_markers (heading_text raw_line) + 1) 6)
          (html_escape (drop (heading_markers (heading_text raw_line) + 1) (heading_text raw_line))))
   \<and> (\<not> heading_line raw_line \<longrightarrow> \<not> startswith (render_org_line raw_line src kp ids) ''<h'')"
  by (simp add: render_org_line_cases startswith_def)

theorem heading_rendering_witness:
  "heading_line ''**** Sub heading''
   \<and> render_org_line ''**** Sub heading'' ''a.org'' {} Map.empty = ''<h5>Sub heading</h5>''
   \<and> heading_line ''******* seven''
   \<and> render_org_line ''******* seven'' ''a.org'' {} Map.empty = ''<h6>seven</h6>''
   \<and> \<not> heading_line ''*bold* text''
   \<and> \<not> startswith (render_org_line ''*bold* text'' ''a.org'' {} Map.empty) ''<h''"
proof -
  have h4: "heading_line ''**** Sub heading''" and h7: "heading_line ''******* seven''"
    and n: "\<not> heading_line ''*bold* text''"
    by code_simp+
  have v4: "heading_element (min (heading_markers (heading_text ''**** Sub heading'') + 1) 6)
      (html_escape (drop (heading_markers (heading_text ''**** Sub heading'') + 1)
         (heading_text ''**** Sub heading''))) = ''<h5>Sub heading</h5>''"
    by code_simp
  have v7: "heading_element (min (heading_markers (heading_text ''******* seven'') + 1) 6)
      (html_escape (drop (heading_markers (heading_text ''******* seven'') + 1)
         (heading_text ''******* seven''))) = ''<h6>seven</h6>''"
    by code_simp
  show ?thesis
    using h4 h7 n v4 v7
      heading_rendering [of "''**** Sub heading''" "''a.org''" "{}" Map.empty]
      heading_rendering [of "''******* seven''" "''a.org''" "{}" Map.empty]
      heading_rendering [of "''*bold* text''" "''a.org''" "{}" Map.empty]
    by simp
qed

text \<open>
  The claim as it was stated asks for a non-empty remainder. The line made of one marker
  and one space has an empty remainder and is rendered as a heading all the same.
\<close>

theorem heading_empty_remainder_counterexample:
  "\<not> heading_line_as_specified ''* ''
   \<and> render_org_line ''* '' ''a.org'' {} Map.empty = heading_element 2 []"
  by code_simp

lemma finditer_no_match: "fst (finditer pat s) = [] \<Longrightarrow> finditer pat s = ([], s)"
proof (induction s)
  case Nil
  then show ?case by simp
next
  case (Cons c s)
  show ?case
  proof (cases "pat (c # s)")
    case None
    with Cons.prems have "fst (finditer pat s) = []"
      by (auto split: prod.splits list.splits)
    with Cons.IH have "finditer pat s = ([], s)" by simp
    with None show ?thesis by simp
  next
    case (Some m)
    with Cons.prems show ?thesis
      by (auto split: prod.splits)
  qed
qed

lemma splitlines_from_no_linebreak:
  "line \<in> set (splitlines_from cur after_cr s) \<Longrightarrow> \<forall>c \<in> set cur. \<not> is_linebreak c
     \<Longrightarrow> \<forall>c \<in> set line. \<not> is_linebreak c"
proof (induction s arbitrary: cur after_cr)
  case Nil
  then show ?case by (cases "cur = []") simp_all
next
  case (Cons c s)
  show ?case
  proof (cases "after_cr \<and> c = CHR 0x0A")
    case True
    with Cons.prems(1) have "line \<in> set (splitlines_from cur False s)" by simp
    then show ?thesis using Cons.prems(2) by (rule Cons.IH)
  next
    case False
    show ?thesis
    proof (cases "is_linebreak c")
      case True
      with False Cons.prems(1)
      have "line = cur \<or> line \<in> set (splitlines_from [] (c = CHR 0x0D) s)" by auto
      then show ?thesis
      proof
        assume "line = cur"
        with Cons.prems(2) show ?thesis by simp
      next
        assume "line \<in> set (splitlines_from [] (c = CHR 0x0D) s)"
        then show ?thesis by (rule Cons.IH) simp
      qed
    next
      case nb: False
      with False Cons.prems(1) have "line \<in> set (splitlines_from (cur @ [c]) False s)" by auto
      moreover have "\<forall>d \<in> set (cur @ [c]). \<not> is_linebreak d"
        using Cons.prems(2) nb by simp
      ultimately show ?thesis by (rule Cons.IH)
    qed
  qed
qed

lemma splitlines_no_linefeed:
  assumes "line \<in> set (splitlines s)"
  shows "CHR 0x0A \<notin> set line"
proof -
  have "\<forall>c \<in> set line. \<not> is_linebreak c"
    using assms splitlines_from_no_linebreak [of line "[]" False s] by (simp add: splitlines_def)
  moreover have "is_linebreak (CHR 0x0A)" by (simp add: is_linebreak_def)
  ultimately show ?thesis by blast
qed

lemma rstrip_chars_id:
  assumes "c \<notin> set s"
  shows "rstrip_chars [c] s = s"
proof (cases "rev s")
  case Nil
  then show ?thesis by (simp add: rstrip_chars_def)
next
  case (Cons x xs)
  then have "x \<in> set (rev s)" by simp
  then have "x \<in> set s" by simp
  with assms have "x \<noteq> c" by auto
  with Cons have "dropWhile (\<lambda>d. d \<in> set [c]) (rev s) = rev s" by simp
  then show ?thesis by (simp add: rstrip_chars_def)
qed

lemma render_plain_line:
  assumes "plain_line line"
  shows "render_line_with_links line src kp ids = html_escape line"
proof -
  have l: "finditer ORG_LINK_RE line = ([], line)" and u: "finditer URL_RE line = ([], line)"
    using assms by (simp_all add: plain_line_def finditer_no_match)
  have "render_plain_text_with_links line = html_escape line"
    by (simp add: render_plain_text_with_links_def u html_escape_def)
  then show ?thesis
    by (simp add: render_line_with_links_def l html_escape_def)
qed

lemma render_plain_org_line:
  assumes "CHR 0x0A \<notin> set line" "\<not> heading_line line" "heading_text line \<noteq> []" "plain_line line"
  shows "render_org_line line src kp ids = ''<p>'' @ html_escape line @ ''</p>''"
  using assms by (simp add: render_org_line_cases rstrip_chars_id render_plain_line)

text \<open>
  Claim C8, as amended. A note without heading lines, link syntax, bare URLs and blank
  lines is rendered as one paragraph element for each of its lines, whose body is the
  escaped line, the elements joined by line feeds. When the text is a single line
  without a line boundary, that is exactly one paragraph element whose body is the
  escaped text.
\<close>

theorem plain_note_rendering:
  assumes "plain_note content'"
  shows "render_org_to_html content' src kp ids =
       join [CHR 0x0A] (map (\<lambda>line. ''<p>'' @ html_escape line @ ''</p>'') (splitlines content'))
     \<and> (splitlines content' = [content'] \<longrightarrow>
           render_org_to_html content' src kp ids = ''<p>'' @ html_escape content' @ ''</p>'')"
proof -
  have "map (\<lambda>raw_line. render_org_line raw_line src kp ids) (splitlines content') =
      map (\<lambda>line. ''<p>'' @ html_escape line @ ''</p>'') (splitlines content')"
  proof (rule map_cong [OF refl])
    fix line assume in_lines: "line \<in> set (splitlines content')"
    with assms have "\<not> heading_line line" "heading_text line \<noteq> []" "plain_line line"
      by (simp_all add: plain_note_def list_all_iff)
    with splitlines_no_linefeed [OF in_lines]
    show "render_org_line line src kp ids = ''<p>'' @ html_escape line @ ''</p>''"
      by (rule render_plain_org_line)
  qed
  then have eq: "render_org_to_html content' src kp ids =
       join [CHR 0x0A] (map (\<lambda>line. ''<p>'' @ html_escape line @ ''</p>'') (splitlines content'))"
    unfolding render_org_to_html_def by (rule arg_cong)
  show ?thesis
  proof (intro conjI impI)
    show "render_org_to_html content' src kp ids =
       join [CHR 0x0A] (map (\<lambda>line. ''<p>'' @ html_escape line @ ''</p>'') (splitlines content'))"
      by (rule eq)
  next
    assume "splitlines content' = [content']"
    then show "render_org_to_html content' src kp ids = ''<p>'' @ html_escape content' @ ''</p>''"
      unfolding eq by simp
  qed
qed

theorem plain_note_rendering_witness:
  "plain_note ''a < b & c'' \<and> splitlines ''a < b & c'' = [''a < b & c'']
   \<and> render_org_to_html ''a < b & c'' ''a.org'' {} Map.empty = ''<p>a &lt; b &amp; c</p>''"
proof -
  have p: "plain_note ''a < b & c''" and s: "splitlines ''a < b & c'' = [''a < b & c'']"
    and e: "html_escape ''a < b & c'' = ''a &lt; b &amp; c''"
    by code_simp+
  show ?thesis
    using p s e plain_note_rendering [OF p, of "''a.org''" "{}" Map.empty] by simp
qed

text \<open>
  The claim as it was stated promises one paragraph element with the whole text. A note
  of two lines has no blank line and is rendered as two paragraph elements.
\<close>

theorem plain_note_two_lines_counterexample:
  "plain_note (''a'' @ [CHR 0x0A] @ ''b'')
   \<and> render_org_to_html (''a'' @ [CHR 0x0A] @ ''b'') ''a.org'' {} Map.empty
       = ''<p>a</p>'' @ [CHR 0x0A] @ ''<p>b</p>''
   \<and> render_org_to_html (''a'' @ [CHR 0x0A] @ ''b'') ''a.org'' {} Map.empty
       \<noteq> ''<p>'' @ html_escape (''a'' @ [CHR 0x0A] @ ''b'') @ ''</p>''"
  by code_simp

section \<open>Properties of the creation key\<close>

lemma digits_group: "digits n s = Some (g, r) \<Longrightarrow> digit_group n g"
  by (auto simp: digits_def digit_group_def split: if_splits)

lemma ts_time_group: "ts_time s = Some ((h, mi), r) \<Longrightarrow> digit_group 2 h \<and> digit_group 2 mi"
  by (auto simp: ts_time_def dest: digits_group split: if_splits option.splits)

lemma ts_tail_group:
  "ts_tail s = Some (Some (h, mi)) \<Longrightarrow> digit_group 2 h \<and> digit_group 2 mi"
  by (auto simp: ts_tail_def dest: ts_time_group split: if_splits option.splits)

lemma ts_tail_wf:
  "ts_tail s = Some hm \<Longrightarrow>
     (case hm of Some (h, mi) \<Rightarrow> digit_group 2 h \<and> digit_group 2 mi | None \<Rightarrow> True)"
  by (cases hm) (auto dest: ts_tail_group)

lemma ORG_TIMESTAMP_RE_groups:
  "ORG_TIMESTAMP_RE s = Some (y, mo, d, hm) \<Longrightarrow>
     digit_group 4 y \<and> digit_group 2 mo \<and> digit_group 2 d \<and> (\<exists>r'. ts_tail r' = Some hm)"
  unfolding ORG_TIMESTAMP_RE_def
  by (simp split: if_splits option.splits prod.splits) (blast intro: digits_group)+

lemma ORG_TIMESTAMP_RE_wf:
  assumes "ORG_TIMESTAMP_RE s = Some ts"
  shows "ts_wf ts"
proof -
  obtain y mo d hm where ts: "ts = (y, mo, d, hm)" by (cases ts)
  from ORG_TIMESTAMP_RE_groups [OF assms [unfolded ts]] obtain r' where
    g: "digit_group 4 y" "digit_group 2 mo" "digit_group 2 d" and "ts_tail r' = Some hm"
    by blast
  from ts_tail_wf [OF this(4)] g show ?thesis by (simp add: ts_wf_def ts)
qed

lemma re_search_match: "re_search pat s = Some g \<Longrightarrow> \<exists>s'. pat s' = Some g"
  by (induction s) (auto split: option.splits)

lemma py_int_group:
  "digit_group 4 g \<Longrightarrow> py_int g = Some (digits_value g)"
  "digit_group 2 g \<Longrightarrow> py_int g = Some (digits_value g)"
  by (auto simp: py_int_def digit_group_def digits_value_def)

lemma py_int_zero: "py_int ''0'' = Some 0"
  by code_simp

lemma key_of_wf:
  assumes "ts_wf ts"
  shows "timestamp_match_to_sort_key ts = Some (sort_key_of (ts_fields ts))"
proof -
  obtain y mo d hm where ts: "ts = (y, mo, d, hm)" by (cases ts)
  from assms have "digit_group 4 y" "digit_group 2 mo" "digit_group 2 d"
    by (simp_all add: ts_wf_def ts)
  then have g: "py_int y = Some (digits_value y)" "py_int mo = Some (digits_value mo)"
    "py_int d = Some (digits_value d)"
    by (simp_all add: py_int_group)
  show ?thesis
  proof (cases hm)
    case None
    then show ?thesis
      by (simp add: timestamp_match_to_sort_key_def ts g py_int_zero ts_fields_def sort_key_of_def)
  next
    case (Some p)
    obtain h mi where p: "p = (h, mi)" by (cases p)
    from assms Some p have "digit_group 2 h" "digit_group 2 mi"
      by (simp_all add: ts_wf_def ts)
    then have "py_int h = Some (digits_value h)" "py_int mi = Some (digits_value mi)"
      by (simp_all add: py_int_group)
    with Some p show ?thesis
      by (simp add: timestamp_match_to_sort_key_def ts g ts_fields_def sort_key_of_def)
  qed
qed

lemma key_of_search:
  "re_search ORG_TIMESTAMP_RE s = Some ts \<Longrightarrow>
     timestamp_match_to_sort_key ts = Some (sort_key_of (ts_fields ts))"
  by (auto dest!: re_search_match intro: key_of_wf ORG_TIMESTAMP_RE_wf)

lemma created_scan_eq:
  "created_scan lines =
     map_option (\<lambda>ts. sort_key_of (ts_fields ts))
       (first_match (\<lambda>line. case CREATED_LINE_RE line of
                              None \<Rightarrow> None
                            | Some v \<Rightarrow> re_search ORG_TIMESTAMP_RE v) lines)"
proof (induction lines)
  case Nil
  then show ?case by simp
next
  case (Cons line lines)
  show ?case
  proof (cases "CREATED_LINE_RE line")
    case None
    with Cons show ?thesis by simp
  next
    case (Some v)
    show ?thesis
    proof (cases "re_search ORG_TIMESTAMP_RE v")
      case None
      with Some Cons show ?thesis by simp
    next
      case found: (Some ts)
      from key_of_search [OF found] Some found show ?thesis by simp
    qed
  qed
qed

lemma extract_created_sort_key_eq:
  "extract_created_sort_key content' =
     (case created_timestamp content' of
        Some ts \<Rightarrow> Some (sort_key_of (ts_fields ts))
      | None \<Rightarrow>
          (case re_search ORG_TIMESTAMP_RE content' of
             Some ts \<Rightarrow> Some (sort_key_of (ts_fields ts))
           | None \<Rightarrow> None))"
proof (cases "created_timestamp content'")
  case None
  then have "created_scan (splitlines content') = None"
    by (simp add: created_scan_eq created_timestamp_def)
  then show ?thesis
    using None by (auto simp: extract_created_sort_key_def key_of_search split: option.splits)
next
  case (Some ts)
  then have "created_scan (splitlines content') = Some (sort_key_of (ts_fields ts))"
    by (simp add: created_scan_eq created_timestamp_def)
  then show ?thesis
    using Some by (simp add: extract_created_sort_key_def)
qed

lemma digit_step_bounds:
  assumes "is_digit c"
  shows "0 \<le> int (of_char c) - 48" "int (of_char c) - 48 \<le> 9"
  using assms by (simp_all add: is_digit_def)

lemma foldl_digits_bounds:
  assumes "list_all is_digit g" "0 \<le> a"
  shows "0 \<le> foldl (\<lambda>a c. 10 * a + (int (of_char c) - 48)) a g
     \<and> foldl (\<lambda>a c. 10 * a + (int (of_char c) - 48)) a g < (a + 1) * 10 ^ length g"
  using assms
proof (induction g arbitrary: a)
  case Nil
  then show ?case by simp
next
  case (Cons c g)
  let ?b = "10 * a + (int (of_char c) - 48)"
  from Cons.prems have c: "is_digit c" and g: "list_all is_digit g" by simp_all
  from digit_step_bounds [OF c] Cons.prems(2) have b: "0 \<le> ?b" "?b + 1 \<le> 10 * (a + 1)"
    by simp_all
  from Cons.IH [OF g b(1)]
  have IH: "0 \<le> foldl (\<lambda>a c. 10 * a + (int (of_char c) - 48)) ?b g"
    "foldl (\<lambda>a c. 10 * a + (int (of_char c) - 48)) ?b g < (?b + 1) * 10 ^ length g"
    by simp_all
  have "(?b + 1) * 10 ^ length g \<le> (10 * (a + 1)) * 10 ^ length g"
    using b(2) by (intro mult_right_mono) simp_all
  also have "\<dots> = (a + 1) * 10 ^ length (c # g)"
    by simp
  finally have "foldl (\<lambda>a c. 10 * a + (int (of_char c) - 48)) ?b g < (a + 1) * 10 ^ length (c # g)"
    using IH(2) by linarith
  moreover have "foldl (\<lambda>a c. 10 * a + (int (of_char c) - 48)) a (c # g) =
      foldl (\<lambda>a c. 10 * a + (int (of_char c) - 48)) ?b g"
    by simp
  ultimately show ?case using IH(1) by simp
qed

lemma digits_value_bounds:
  assumes "digit_group n g"
  shows "0 \<le> digits_value g" "digits_value g < 10 ^ n"
  using assms foldl_digits_bounds [of g 0] by (simp_all add: digit_group_def digits_value_def)

lemma ts_fields_bounds:
  assumes "ts_wf ts"
  shows "field_bounds (ts_fields ts)"
proof -
  obtain y mo d hm where ts: "ts = (y, mo, d, hm)" by (cases ts)
  from assms have g: "digit_group 2 mo" "digit_group 2 d" by (simp_all add: ts_wf_def ts)
  show ?thesis
  proof (cases hm)
    case None
    with digits_value_bounds [OF g(1)] digits_value_bounds [OF g(2)] show ?thesis
      by (simp add: field_bounds_def ts_fields_def ts)
  next
    case (Some p)
    obtain h mi where p: "p = (h, mi)" by (cases p)
    from assms Some p have t: "digit_group 2 h" "digit_group 2 mi"
      by (simp_all add: ts_wf_def ts)
    from digits_value_bounds [OF g(1)] digits_value_bounds [OF g(2)]
      digits_value_bounds [OF t(1)] digits_value_bounds [OF t(2)] Some p
    show ?thesis by (simp add: field_bounds_def ts_fields_def ts)
  qed
qed

lemma sort_key_of_mono:
  assumes "field_bounds f" "field_bounds f'"
  shows "(f < f') = (sort_key_of f < sort_key_of f')"
proof -
  obtain y m d h mi where f: "f = (y, m, d, h, mi)" by (cases f) auto
  obtain y' m' d' h' mi' where f': "f' = (y', m', d', h', mi')" by (cases f') auto
  from assms show ?thesis
    unfolding f f' field_bounds_def sort_key_of_def less_prod_def
    by simp arith
qed

text \<open>
  Claim C9, as amended. \<open>extract_created_sort_key\<close> takes the first time stamp found in
  the value of a \<open>CREATED\<close> line; when no \<open>CREATED\<close> line holds a time stamp, also when
  such lines exist, it takes the first time stamp anywhere in the text; when there is
  none either, it returns \<open>None\<close>. The key of a parsed time stamp is
  \<open>((year*100+month)*100+day)*100*100+hour*100+minute\<close>, with the time 00:00 when the
  time stamp has none; no conversion of a group fails. Time stamps are ordered by their
  fields as their keys are ordered.
\<close>

theorem created_sort_key_spec:
  "extract_created_sort_key content' =
     (case created_timestamp content' of
        Some ts \<Rightarrow> Some (sort_key_of (ts_fields ts))
      | None \<Rightarrow>
          (case re_search ORG_TIMESTAMP_RE content' of
             Some ts \<Rightarrow> Some (sort_key_of (ts_fields ts))
           | None \<Rightarrow> None))
   \<and> (\<forall>s ts. ORG_TIMESTAMP_RE s = Some ts \<longrightarrow>
          timestamp_match_to_sort_key ts = Some (sort_key_of (ts_fields ts)))
   \<and> (\<forall>s s' ts ts'. ORG_TIMESTAMP_RE s = Some ts \<and> ORG_TIMESTAMP_RE s' = Some ts' \<longrightarrow>
          (ts_fields ts < ts_fields ts') = (sort_key_of (ts_fields ts) < sort_key_of (ts_fields ts')))"
proof (intro conjI allI impI)
  show "extract_created_sort_key content' =
     (case created_timestamp content' of
        Some ts \<Rightarrow> Some (sort_key_of (ts_fields ts))
      | None \<Rightarrow>
          (case re_search ORG_TIMESTAMP_RE content' of
             Some ts \<Rightarrow> Some (sort_key_of (ts_fields ts))
           | None \<Rightarrow> None))"
    by (rule extract_created_sort_key_eq)
next
  fix s ts assume "ORG_TIMESTAMP_RE s = Some ts"
  then show "timestamp_match_to_sort_key ts = Some (sort_key_of (ts_fields ts))"
    by (intro key_of_wf ORG_TIMESTAMP_RE_wf)
next
  fix s s' ts ts'
  assume "ORG_TIMESTAMP_RE s = Some ts \<and> ORG_TIMESTAMP_RE s' = Some ts'"
  then have "field_bounds (ts_fields ts)" "field_bounds (ts_fields ts')"
    by (auto intro: ts_fields_bounds ORG_TIMESTAMP_RE_wf)
  then show "(ts_fields ts < ts_fields ts') = (sort_key_of (ts_fields ts) < sort_key_of (ts_fields ts'))"
    by (rule sort_key_of_mono)
qed

theorem created_sort_key_spec_witness:
  "extract_created_sort_key (''<2024-05-06>'' @ [CHR 0x0A] @ ''#+CREATED: [2020-01-02 Mon 10:30]'')
     = Some 202001021030
   \<and> ORG_TIMESTAMP_RE ''[2020-01-02 Mon 10:30]'' = Some (''2020'', ''01'', ''02'', Some (''10'', ''30''))
   \<and> ORG_TIMESTAMP_RE ''<2024-05-06>'' = Some (''2024'', ''05'', ''06'', None)
   \<and> timestamp_match_to_sort_key (''2024'', ''05'', ''06'', None) = Some 202405060000
   \<and> sort_key_of (ts_fields (''2020'', ''01'', ''02'', Some (''10'', ''30'')))
       < sort_key_of (ts_fields (''2024'', ''05'', ''06'', None))"
proof -
  let ?c = "''<2024-05-06>'' @ [CHR 0x0A] @ ''#+CREATED: [2020-01-02 Mon 10:30]''"
  have c: "created_timestamp ?c = Some (''2020'', ''01'', ''02'', Some (''10'', ''30''))"
    by code_simp
  have m1: "ORG_TIMESTAMP_RE ''[2020-01-02 Mon 10:30]'' = Some (''2020'', ''01'', ''02'', Some (''10'', ''30''))"
    and m2: "ORG_TIMESTAMP_RE ''<2024-05-06>'' = Some (''2024'', ''05'', ''06'', None)"
    by code_simp+
  have k1: "sort_key_of (ts_fields (''2020'', ''01'', ''02'', Some (''10'', ''30''))) = 202001021030"
    and k2: "sort_key_of (ts_fields (''2024'', ''05'', ''06'', None)) = 202405060000"
    by code_simp+
  have lt: "ts_fields (''2020'', ''01'', ''02'', Some (''10'', ''30''))
      < ts_fields (''2024'', ''05'', ''06'', None)"
    by code_simp
  note spec = created_sort_key_spec [of ?c]
  from spec have "extract_created_sort_key ?c =
      Some (sort_key_of (ts_fields (''2020'', ''01'', ''02'', Some (''10'', ''30''))))"
    unfolding c by simp
  moreover from spec m2
  have "timestamp_match_to_sort_key (''2024'', ''05'', ''06'', None)
      = Some (sort_key_of (ts_fields (''2024'', ''05'', ''06'', None)))"
    by blast
  moreover from spec m1 m2 lt
  have "sort_key_of (ts_fields (''2020'', ''01'', ''02'', Some (''10'', ''30'')))
       < sort_key_of (ts_fields (''2024'', ''05'', ''06'', None))"
    by blast
  ultimately show ?thesis
    using m1 m2 by (simp only: k1 k2)
qed

text \<open>
  The claim as it was stated lets the function fall back only when no \<open>CREATED\<close> line
  exists. Here one exists, holds no time stamp, and the key is that of the time stamp on
  the next line.
\<close>

theorem created_fallback_counterexample:
  "has_created_directive (''CREATED: soon'' @ [CHR 0x0A] @ ''<2024-05-06>'')
   \<and> created_timestamp (''CREATED: soon'' @ [CHR 0x0A] @ ''<2024-05-06>'') = None
   \<and> extract_created_sort_key (''CREATED: soon'' @ [CHR 0x0A] @ ''<2024-05-06>'')
       = Some 202405060000"
  by code_simp

section \<open>Relative paths of a scan\<close>

text \<open>
  Claim C2 asks that the relative paths of the notes of one scan be pairwise distinct.
  \<open>normalize_relative_path\<close> ends with \<open>normalized.lstrip("./")\<close>, which drops every
  leading dot and slash, not the prefix \<open>./\<close>. A directory that holds the two files
  \<open>.a.org\<close> and \<open>a.org\<close> is scanned into two notes, with the two distinct paths
  \<open>/notes/.a.org\<close> and \<open>/notes/a.org\<close> and the one relative path \<open>a.org\<close>.
\<close>

theorem scan_relative_paths_collide:
  "map path (scan_org_files ''/notes'' [File ''.a.org'' ''x'', File ''a.org'' ''y''])
     = [''/notes/.a.org'', ''/notes/a.org'']
   \<and> map relative_path (scan_org_files ''/notes'' [File ''.a.org'' ''x'', File ''a.org'' ''y''])
     = [''a.org'', ''a.org'']
   \<and> \<not> distinct (map relative_path
         (scan_org_files ''/notes'' [File ''.a.org'' ''x'', File ''a.org'' ''y'']))"
  by code_simp

end
